theory Spec2Isabelle
  imports Complex_Main
begin

section \<open>Data model (types.ts)\<close>

text \<open>
  The records follow \<^verbatim>\<open>src/types.ts\<close>. Field names carry a short prefix where two
  interfaces share a name (\<^verbatim>\<open>uri\<close> of \<^verbatim>\<open>Source\<close> and of \<^verbatim>\<open>Citation\<close>) or where the
  name is taken in HOL (\<^verbatim>\<open>id\<close>, \<^verbatim>\<open>text\<close>). An optional field \<^verbatim>\<open>f?: T\<close> is a
  \<open>T option\<close>, with \<open>None\<close> for \<^verbatim>\<open>undefined\<close>. Strings are ASCII.
\<close>

record Source =
  title :: string
  uri :: string

record Citation =
  startIndex :: "int option"
  endIndex :: "int option"
  cit_uri :: string
  license :: "string option"

record ComparisonTableData =
  headers :: "string list"
  rows :: "string list list"

record ImageSearchResult =
  imageUrl :: string
  sourceUrl :: string
  img_title :: string

section \<open>The JavaScript containers used by the merger\<close>

text \<open>
  A JavaScript \<^verbatim>\<open>Map\<close> iterates in insertion order; \<^verbatim>\<open>Map.prototype.set\<close> on a key
  that is present replaces the value and keeps the entry's position, and on a new key
  appends the entry. The model is an association list in iteration order.
\<close>

fun map_set :: "'k \<Rightarrow> 'v \<Rightarrow> ('k \<times> 'v) list \<Rightarrow> ('k \<times> 'v) list" where
  "map_set k v [] = [(k, v)]"
| "map_set k v ((k', v') # m) =
     (if k' = k then (k, v) # m else (k', v') # map_set k v m)"

text \<open>\<^verbatim>\<open>Array.from(m.values())\<close>\<close>

definition map_values :: "('k \<times> 'v) list \<Rightarrow> 'v list" where
  "map_values m = map snd m"

text \<open>\<^verbatim>\<open>xs.forEach(x => m.set(key(x), x))\<close>\<close>

definition forEach_set :: "('v \<Rightarrow> 'k) \<Rightarrow> 'v list \<Rightarrow> ('k \<times> 'v) list \<Rightarrow> ('k \<times> 'v) list" where
  "forEach_set key xs m = foldl (\<lambda>acc x. map_set (key x) x acc) m xs"

text \<open>Every entry of the map is stored under the key computed from its value.\<close>

definition keyed :: "('v \<Rightarrow> 'k) \<Rightarrow> ('k \<times> 'v) list \<Rightarrow> bool" where
  "keyed key m = (map key (map snd m) = map fst m)"

text \<open>
  A JavaScript \<^verbatim>\<open>Set\<close> also iterates in insertion order; \<^verbatim>\<open>add\<close> of a member is a
  no-op. \<open>new_Set xs\<close> is \<^verbatim>\<open>[...new Set(xs)]\<close>.
\<close>

definition set_add :: "'a \<Rightarrow> 'a list \<Rightarrow> 'a list" where
  "set_add x s = (if x \<in> set s then s else s @ [x])"

definition new_Set :: "'a list \<Rightarrow> 'a list" where
  "new_Set xs = foldl (\<lambda>s x. set_add x s) [] xs"

section \<open>Source/citation merging in the stream loops (SearchPage.tsx, lines 198, 205, 214)\<close>

text \<open>
  The template literal \<^verbatim>\<open>`${c.startIndex}-${c.uri}`\<close> renders an absent
  \<^verbatim>\<open>startIndex\<close> as \<^verbatim>\<open>undefined\<close> and an integer in decimal.
\<close>

definition digit_char :: "nat \<Rightarrow> char" where
  "digit_char d = ''0123456789'' ! d"

fun decimal :: "nat \<Rightarrow> string \<Rightarrow> string" where
  "decimal n acc =
     (if n < 10 then digit_char n # acc
      else decimal (n div 10) (digit_char (n mod 10) # acc))"

declare decimal.simps [simp del]

definition number_toString :: "int \<Rightarrow> string" where
  "number_toString i =
     (if 0 \<le> i then decimal (nat i) [] else CHR ''-'' # decimal (nat (- i)) [])"

definition template_startIndex :: "int option \<Rightarrow> string" where
  "template_startIndex i = (case i of None \<Rightarrow> ''undefined'' | Some n \<Rightarrow> number_toString n)"

definition citation_key :: "Citation \<Rightarrow> string" where
  "citation_key c = template_startIndex (startIndex c) @ ''-'' @ cit_uri c"

definition merge_sources :: "Source list \<Rightarrow> (string \<times> Source) list \<Rightarrow> (string \<times> Source) list" where
  "merge_sources ss m = forEach_set uri ss m"

definition merge_citations ::
  "Citation list \<Rightarrow> (string \<times> Citation) list \<Rightarrow> (string \<times> Citation) list" where
  "merge_citations cs m = forEach_set citation_key cs m"

text \<open>
  A chunk of the SDK stream, as far as the code reads it: \<^verbatim>\<open>chunk.text\<close>,
  \<^verbatim>\<open>chunk.candidates?.[0]?.groundingMetadata?.groundingChunks\<close> (each element's
  \<^verbatim>\<open>web\<close> member, which may be absent) and
  \<^verbatim>\<open>chunk.candidates?.[0]?.citationMetadata?.citations\<close>.
\<close>

record Web =
  web_uri :: "string option"
  web_title :: "string option"

record RawChunk =
  r_text :: "string option"
  r_groundingChunks :: "Web option list option"
  r_citations :: "Citation list option"

text \<open>What \<^verbatim>\<open>performSmartSearch\<close> yields: \<^verbatim>\<open>{ text, sources, citations }\<close>.\<close>

record Chunk =
  c_text :: "string option"
  c_sources :: "Source list option"
  c_citations :: "Citation list option"

text \<open>
  \<^verbatim>\<open>.map(c => c.web).filter(w => w?.uri && w?.title).map(w => ({title: w.title, uri: w.uri}))\<close>:
  a web entry is kept when both strings are present and non-empty.
\<close>

definition web_source :: "Web option \<Rightarrow> Source option" where
  "web_source w =
     (case w of
        None \<Rightarrow> None
      | Some w' \<Rightarrow>
          (case web_uri w' of
             None \<Rightarrow> None
           | Some u \<Rightarrow>
               (case web_title w' of
                  None \<Rightarrow> None
                | Some t \<Rightarrow> if u \<noteq> [] \<and> t \<noteq> [] then Some \<lparr>title = t, uri = u\<rparr> else None)))"

definition to_sources :: "Web option list \<Rightarrow> Source list" where
  "to_sources gcs = List.map_filter web_source gcs"

definition performSmartSearch_yield :: "RawChunk \<Rightarrow> Chunk" where
  "performSmartSearch_yield r =
     \<lparr>c_text = r_text r,
      c_sources = map_option to_sources (r_groundingChunks r),
      c_citations = r_citations r\<rparr>"

text \<open>The local variables of one run of \<^verbatim>\<open>handleSendMessage\<close> that the loops update.\<close>

record LoopState =
  fullText :: string
  sourcesMap :: "(string \<times> Source) list"
  citationsMap :: "(string \<times> Citation) list"

definition loop_init :: LoopState where
  "loop_init = \<lparr>fullText = [], sourcesMap = [], citationsMap = []\<rparr>"

text \<open>\<^verbatim>\<open>chunk.text || ''\<close>\<close>

definition or_empty :: "string option \<Rightarrow> string" where
  "or_empty t = (case t of None \<Rightarrow> [] | Some s \<Rightarrow> s)"

text \<open>Line 205, the body of the loop over \<^verbatim>\<open>performSmartSearch\<close> (after the cancel check).\<close>

definition new_chat_chunk :: "LoopState \<Rightarrow> Chunk \<Rightarrow> LoopState" where
  "new_chat_chunk st c =
     \<lparr>fullText = fullText st @ or_empty (c_text c),
      sourcesMap = (case c_sources c of None \<Rightarrow> sourcesMap st
                    | Some ss \<Rightarrow> merge_sources ss (sourcesMap st)),
      citationsMap = (case c_citations c of None \<Rightarrow> citationsMap st
                      | Some cs \<Rightarrow> merge_citations cs (citationsMap st))\<rparr>"

text \<open>
  Line 214, the body of the loop over \<^verbatim>\<open>activeChat.sendMessageStream\<close>. Here the text
  is appended without a default, so an absent \<^verbatim>\<open>chunk.text\<close> appends the nine letters
  \<^verbatim>\<open>undefined\<close>; citations are merged only when the array is non-empty.
\<close>

definition continuation_chunk :: "LoopState \<Rightarrow> RawChunk \<Rightarrow> LoopState" where
  "continuation_chunk st r =
     \<lparr>fullText = fullText st @ (case r_text r of None \<Rightarrow> ''undefined'' | Some s \<Rightarrow> s),
      sourcesMap = (case r_groundingChunks r of None \<Rightarrow> sourcesMap st
                    | Some g \<Rightarrow> merge_sources (to_sources g) (sourcesMap st)),
      citationsMap = (case r_citations r of None \<Rightarrow> citationsMap st
                      | Some cs \<Rightarrow> if cs = [] then citationsMap st
                                   else merge_citations cs (citationsMap st))\<rparr>"

text \<open>Line 198, the body of the loop over \<^verbatim>\<open>callMistral\<close>: text only.\<close>

definition mistral_chunk :: "LoopState \<Rightarrow> RawChunk \<Rightarrow> LoopState" where
  "mistral_chunk st r = st\<lparr>fullText := fullText st @ or_empty (r_text r)\<rparr>"

text \<open>A whole stream, run to its end from the empty maps.\<close>

definition new_chat_loop :: "Chunk list \<Rightarrow> LoopState" where
  "new_chat_loop cs = foldl new_chat_chunk loop_init cs"

definition continuation_loop :: "RawChunk list \<Rightarrow> LoopState" where
  "continuation_loop rs = foldl continuation_chunk loop_init rs"

text \<open>The \<^verbatim>\<open>sources\<close> and \<^verbatim>\<open>citations\<close> written into the visible message.\<close>

definition visible_sources :: "LoopState \<Rightarrow> Source list" where
  "visible_sources st = map_values (sourcesMap st)"

definition visible_citations :: "LoopState \<Rightarrow> Citation list" where
  "visible_citations st = map_values (citationsMap st)"

text \<open>The sources one chunk carries, in order, on either path.\<close>

definition chunk_srcs :: "Chunk \<Rightarrow> Source list" where
  "chunk_srcs c = (case c_sources c of None \<Rightarrow> [] | Some ss \<Rightarrow> ss)"

definition raw_srcs :: "RawChunk \<Rightarrow> Source list" where
  "raw_srcs r = (case r_groundingChunks r of None \<Rightarrow> [] | Some g \<Rightarrow> to_sources g)"

text \<open>
  What holds of the two maps at every point of a loop: a \<^verbatim>\<open>Map\<close> has no repeated key,
  and the loops store every source under its \<^verbatim>\<open>uri\<close> and every citation under its
  template key.
\<close>

definition merger_inv :: "LoopState \<Rightarrow> bool" where
  "merger_inv st =
     (distinct (map fst (sourcesMap st)) \<and> keyed uri (sourcesMap st) \<and>
      distinct (map fst (citationsMap st)) \<and> keyed citation_key (citationsMap st))"

section \<open>String helpers of the JavaScript runtime\<close>

text \<open>
  \<^verbatim>\<open>String.prototype.trim\<close>, \<^verbatim>\<open>startsWith\<close>, \<^verbatim>\<open>includes\<close>, \<^verbatim>\<open>indexOf\<close> and
  \<^verbatim>\<open>lastIndexOf\<close> on ASCII strings. White space is the ASCII part of the regular
  expression class \<^verbatim>\<open>\s\<close>: space, tab, line feed, vertical tab, form feed, carriage
  return. The white space beyond ASCII that \<^verbatim>\<open>trim\<close> and \<^verbatim>\<open>\s\<close> also recognise (the
  no-break space, the byte order mark and others) lies outside the model: a string here
  holds ASCII characters only.
\<close>

definition is_space :: "char \<Rightarrow> bool" where
  "is_space c = (c = CHR '' '' \<or> c = CHR 0x09 \<or> c = CHR 0x0A \<or> c = CHR 0x0B \<or>
                 c = CHR 0x0C \<or> c = CHR 0x0D)"

definition js_trim :: "string \<Rightarrow> string" where
  "js_trim s = rev (dropWhile is_space (rev (dropWhile is_space s)))"

fun startsWith :: "string \<Rightarrow> string \<Rightarrow> bool" where
  "startsWith s [] = True"
| "startsWith [] (p # ps) = False"
| "startsWith (c # cs) (p # ps) = (c = p \<and> startsWith cs ps)"

fun js_includes :: "string \<Rightarrow> string \<Rightarrow> bool" where
  "js_includes [] sub = (sub = [])"
| "js_includes (c # cs) sub = (startsWith (c # cs) sub \<or> js_includes cs sub)"

fun indexOf :: "char \<Rightarrow> string \<Rightarrow> nat option" where
  "indexOf x [] = None"
| "indexOf x (c # cs) = (if c = x then Some 0 else map_option Suc (indexOf x cs))"

definition lastIndexOf :: "char \<Rightarrow> string \<Rightarrow> nat option" where
  "lastIndexOf x s = map_option (\<lambda>i. length s - 1 - i) (indexOf x (rev s))"

section \<open>geminiService.ts\<close>

subsection \<open>handleGeminiError (lines 9-28)\<close>

text \<open>
  A thrown value is \<^verbatim>\<open>null\<close> or \<^verbatim>\<open>undefined\<close> (\<open>ThrownNullish\<close>), another value that
  is not an \<^verbatim>\<open>Error\<close> and has no message, or an \<^verbatim>\<open>Error\<close> with its message. The
  second component of \<open>JsError\<close> is what \<^verbatim>\<open>JSON.parse(error.message)\<close> gives:
  \<open>None\<close> when the message is not JSON, else the members \<^verbatim>\<open>error.status\<close> and
  \<^verbatim>\<open>error.message\<close> of the parsed value, each absent when the path does not exist.
\<close>

record ErrorDetails =
  err_status :: "string option"
  err_message :: "string option"

datatype Thrown = ThrownNullish | NotAnError | JsError string "ErrorDetails option"

definition generic_message :: string where
  "generic_message =
     ''An unexpected error occurred while communicating with the AI. Please try again.''"

definition quota_message :: string where
  "quota_message =
     ''API quota exceeded. You've made too many requests recently. Please wait a moment or check your plan and billing details.''"

text \<open>The message of the \<^verbatim>\<open>Error\<close> that \<^verbatim>\<open>handleGeminiError\<close> returns.\<close>

definition handleGeminiError :: "Thrown \<Rightarrow> string" where
  "handleGeminiError e =
     (case e of
        ThrownNullish \<Rightarrow> generic_message
      | NotAnError \<Rightarrow> generic_message
      | JsError msg details \<Rightarrow>
          if msg = [] then generic_message
          else (case details of
                  None \<Rightarrow> msg
                | Some d \<Rightarrow>
                    if err_status d = Some ''RESOURCE_EXHAUSTED'' then quota_message
                    else (case err_message d of
                            None \<Rightarrow> msg
                          | Some m \<Rightarrow> if m \<noteq> [] then m else msg)))"

text \<open>
  \<^verbatim>\<open>(e as Error).message\<close> of a thrown value that reaches a handler unwrapped. On
  \<^verbatim>\<open>null\<close> and \<^verbatim>\<open>undefined\<close> the access itself throws (\<open>message_access_throws\<close>), and
  \<open>thrown_message\<close> is not read.
\<close>

definition message_access_throws :: "Thrown \<Rightarrow> bool" where
  "message_access_throws e = (case e of ThrownNullish \<Rightarrow> True | other \<Rightarrow> False)"

definition thrown_message :: "Thrown \<Rightarrow> string option" where
  "thrown_message e =
     (case e of ThrownNullish \<Rightarrow> None | NotAnError \<Rightarrow> None | JsError msg details \<Rightarrow> Some msg)"

subsection \<open>The fenced-block regular expression (lines 444 and 510)\<close>

text \<open>
  \<^verbatim>\<open>/```(?:json)?\s*([\s\S]*?)\s*```/\<close>: the match starts at the first fence; after an
  optional \<^verbatim>\<open>json\<close> and white space, the lazy group takes the shortest text after
  which only white space precedes the next fence. \<open>jsonBlockRegex\<close> is
  \<^verbatim>\<open>match[1]\<close>, or \<open>None\<close> when there is no match.
\<close>

definition fence :: string where
  "fence = ''```''"

fun after_first_fence :: "string \<Rightarrow> string option" where
  "after_first_fence [] = None"
| "after_first_fence (c # cs) =
     (if startsWith (c # cs) fence then Some (drop 3 (c # cs)) else after_first_fence cs)"

fun lazy_group :: "string \<Rightarrow> string \<Rightarrow> string option" where
  "lazy_group acc [] = None"
| "lazy_group acc (c # cs) =
     (if startsWith (dropWhile is_space (c # cs)) fence then Some (rev acc)
      else lazy_group (c # acc) cs)"

definition jsonBlockRegex :: "string \<Rightarrow> string option" where
  "jsonBlockRegex s =
     (case after_first_fence s of
        None \<Rightarrow> None
      | Some rest \<Rightarrow>
          lazy_group [] (dropWhile is_space (if startsWith rest ''json'' then drop 4 rest else rest)))"

subsection \<open>JSON values and the model's reply\<close>

text \<open>
  \<^verbatim>\<open>JSON.parse\<close> is a parameter \<open>parse\<close> of the functions below: \<open>None\<close> when it
  throws a \<^verbatim>\<open>SyntaxError\<close>. The request \<^verbatim>\<open>ai.models.generateContent\<close> is a parameter
  too, given by its outcome: the promise is rejected, or it resolves to a response whose
  \<^verbatim>\<open>text\<close> is a string or \<^verbatim>\<open>undefined\<close>.
\<close>

datatype json =
    JNull
  | JBool bool
  | JNum rat
  | JStr string
  | JArr "json list"
  | JObj "(string \<times> json) list"

datatype ApiOutcome = ApiRejected | ApiResponse "string option"

datatype Failure = RequestFailed | TypeError | SyntaxError | UnexpectedFormat

subsection \<open>generateRelatedQueries (lines 417-463)\<close>

fun all_strings :: "json list \<Rightarrow> string list option" where
  "all_strings [] = Some []"
| "all_strings (JStr s # js) = map_option ((#) s) (all_strings js)"
| "all_strings (j # js) = None"

text \<open>
  The \<^verbatim>\<open>try\<close> block: \<open>Inl\<close> is an exception raised inside it. The prompt, built
  before the block from the two string arguments, only shapes the request and is not
  modelled.
\<close>

definition generateRelatedQueries_try ::
  "(string \<Rightarrow> json option) \<Rightarrow> ApiOutcome \<Rightarrow> Failure + string list" where
  "generateRelatedQueries_try parse api =
     (case api of
        ApiRejected \<Rightarrow> Inl RequestFailed
      | ApiResponse None \<Rightarrow> Inl TypeError
      | ApiResponse (Some txt) \<Rightarrow>
          (let jsonText = js_trim txt;
               jsonText' = (case jsonBlockRegex jsonText of
                              None \<Rightarrow> jsonText
                            | Some g \<Rightarrow> if g \<noteq> [] then js_trim g else jsonText)
           in case parse jsonText' of
                None \<Rightarrow> Inl SyntaxError
              | Some (JArr queries) \<Rightarrow>
                  (case all_strings queries of
                     None \<Rightarrow> Inl UnexpectedFormat
                   | Some qs \<Rightarrow> Inr (take 5 (new_Set qs)))
              | Some other \<Rightarrow> Inl UnexpectedFormat))"

text \<open>
  The whole function, with its \<^verbatim>\<open>catch\<close>: \<open>Inr\<close> is the array the promise resolves
  to, \<open>Inl\<close> would be a rejection reaching the caller.
\<close>

definition generateRelatedQueries ::
  "(string \<Rightarrow> json option) \<Rightarrow> ApiOutcome \<Rightarrow> Failure + string list" where
  "generateRelatedQueries parse api =
     (case generateRelatedQueries_try parse api of Inl e \<Rightarrow> Inr [] | Inr qs \<Rightarrow> Inr qs)"

subsection \<open>fetchImagesForSources (lines 471-545)\<close>

text \<open>
  Property access \<^verbatim>\<open>r.key\<close> on a parsed value: it throws on \<^verbatim>\<open>null\<close>, reads the
  member of an object (the last one when a key is repeated), and is \<^verbatim>\<open>undefined\<close> on
  anything else.
\<close>

definition json_get :: "string \<Rightarrow> json \<Rightarrow> Failure + json option" where
  "json_get key r =
     (case r of
        JNull \<Rightarrow> Inl TypeError
      | JObj kvs \<Rightarrow> Inr (map_of (rev kvs) key)
      | other \<Rightarrow> Inr None)"

definition truthy :: "json option \<Rightarrow> bool" where
  "truthy v =
     (case v of
        None \<Rightarrow> False
      | Some JNull \<Rightarrow> False
      | Some (JBool b) \<Rightarrow> b
      | Some (JNum n) \<Rightarrow> n \<noteq> 0
      | Some (JStr s) \<Rightarrow> s \<noteq> []
      | Some other \<Rightarrow> True)"

text \<open>\<^verbatim>\<open>v.startsWith('http')\<close> on a truthy value: only a string has the method.\<close>

definition startsWith_http :: "json option \<Rightarrow> Failure + bool" where
  "startsWith_http v =
     (case v of Some (JStr s) \<Rightarrow> Inr (startsWith s ''http'') | other \<Rightarrow> Inl TypeError)"

text \<open>
  The filter's callback, with the short circuit of \<^verbatim>\<open>&&\<close>:
  \<^verbatim>\<open>r.imageUrl && r.sourceUrl && r.title && r.imageUrl.startsWith('http') && r.sourceUrl.startsWith('http')\<close>.
\<close>

definition keep_result :: "json \<Rightarrow> Failure + bool" where
  "keep_result r =
     (case json_get ''imageUrl'' r of
        Inl e \<Rightarrow> Inl e
      | Inr img \<Rightarrow>
          if \<not> truthy img then Inr False
          else (case json_get ''sourceUrl'' r of
                  Inl e \<Rightarrow> Inl e
                | Inr src \<Rightarrow>
                    if \<not> truthy src then Inr False
                    else (case json_get ''title'' r of
                            Inl e \<Rightarrow> Inl e
                          | Inr ttl \<Rightarrow>
                              if \<not> truthy ttl then Inr False
                              else (case startsWith_http img of
                                      Inl e \<Rightarrow> Inl e
                                    | Inr b \<Rightarrow>
                                        if \<not> b then Inr False
                                        else startsWith_http src))))"

fun filter_results :: "json list \<Rightarrow> Failure + json list" where
  "filter_results [] = Inr []"
| "filter_results (r # rs) =
     (case keep_result r of
        Inl e \<Rightarrow> Inl e
      | Inr b \<Rightarrow>
          (case filter_results rs of
             Inl e \<Rightarrow> Inl e
           | Inr ks \<Rightarrow> Inr (if b then r # ks else ks)))"

text \<open>
  The fallback when the reply has no fenced block: the text from the first \<^verbatim>\<open>[\<close> to
  the last \<^verbatim>\<open>]\<close>, or the empty string.
\<close>

definition bracket_slice :: "string \<Rightarrow> string" where
  "bracket_slice s =
     (case indexOf (CHR ''['') s of
        None \<Rightarrow> []
      | Some i \<Rightarrow>
          (case lastIndexOf (CHR '']'') s of
             None \<Rightarrow> []
           | Some j \<Rightarrow> if i < j then take (j + 1 - i) (drop i s) else []))"

definition fetchImagesForSources_try ::
  "(string \<Rightarrow> json option) \<Rightarrow> ApiOutcome \<Rightarrow> Failure + json list" where
  "fetchImagesForSources_try parse api =
     (case api of
        ApiRejected \<Rightarrow> Inl RequestFailed
      | ApiResponse None \<Rightarrow> Inl TypeError
      | ApiResponse (Some txt) \<Rightarrow>
          (let jsonText = js_trim txt;
               parsableText = (case jsonBlockRegex jsonText of
                                 None \<Rightarrow> bracket_slice jsonText
                               | Some g \<Rightarrow> if g \<noteq> [] then js_trim g
                                           else bracket_slice jsonText)
           in if \<not> startsWith parsableText ''['' then Inr []
              else (case parse parsableText of
                      None \<Rightarrow> Inl SyntaxError
                    | Some (JArr results) \<Rightarrow> filter_results results
                    | Some other \<Rightarrow> Inl UnexpectedFormat)))"

definition fetchImagesForSources ::
  "(string \<Rightarrow> json option) \<Rightarrow> ApiOutcome \<Rightarrow> string \<Rightarrow> Source list \<Rightarrow> Failure + json list" where
  "fetchImagesForSources parse api query srcs =
     (if js_trim query = [] \<or> srcs = [] then Inr []
      else (case fetchImagesForSources_try parse api of Inl e \<Rightarrow> Inr [] | Inr rs \<Rightarrow> Inr rs))"

section \<open>The search page (SearchPage.tsx)\<close>

subsection \<open>Messages and page state\<close>

datatype Role = User | Model

datatype ModelType = Gemini | Mistral

datatype View = ViewChat | ViewHistory | ViewWorkspaces

text \<open>\<^verbatim>\<open>images?: ImageSearchResult[] | null\<close>: absent, \<^verbatim>\<open>null\<close>, or an array.\<close>

datatype Images = ImagesUndefined | ImagesNull | ImagesList "ImageSearchResult list"

record FileInfo =
  f_name :: string
  f_type :: string
  f_previewUrl :: "string option"

text \<open>\<^verbatim>\<open>table\<close> is \<open>None\<close> both for \<^verbatim>\<open>null\<close> and for an absent member.\<close>

record ChatMessage =
  m_id :: nat
  m_role :: Role
  m_content :: string
  m_sources :: "Source list option"
  m_citations :: "Citation list option"
  m_table :: "ComparisonTableData option"
  m_file :: "FileInfo option"
  m_images :: Images

record UploadedFile =
  file_name :: string
  file_type :: string
  file_data :: string

datatype Part = InlineData string string | TextPart string

text \<open>A chat handle of the SDK, as \<^verbatim>\<open>startChat\<close> creates it.\<close>

record Chat =
  chat_history :: "(Role \<times> Part list) list"
  chat_deep :: bool

text \<open>The row given to \<^verbatim>\<open>supabase.from('search_history').insert\<close> (line 222).\<close>

record HistoryRow =
  row_query :: string
  row_answer :: string
  row_sources :: "Source list"
  row_is_deep_research :: bool
  row_workspace_id :: "string option"

record SearchHistoryItem =
  item_id :: string
  item_created_at :: string
  item_row :: HistoryRow

text \<open>
  One call of \<^verbatim>\<open>handleSendMessage\<close> that has passed its guard: the values its closure
  captured, the locals its loop updates, and where the call is suspended. The call is
  named by its \<^verbatim>\<open>modelMessageId\<close>.
\<close>

datatype Phase = Streaming | AwaitingInsert | Finished

record Turn =
  t_query :: string
  t_model :: ModelType
  t_isNewChat :: bool
  t_deep :: bool
  t_workspace :: "string option"
  t_file :: "UploadedFile option"
  t_chat :: "Chat option"
  t_loop :: LoopState
  t_phase :: Phase
  t_images_pending :: bool
  t_related_pending :: bool

text \<open>
  What the callback \<^verbatim>\<open>handleSendMessage\<close> closes over: the cells of its dependency
  array (line 231) as they were at the render that created the callback. A call made
  from the search bar uses the callback of the latest render; the call that
  \<^verbatim>\<open>handleRelatedQueryClick\<close> schedules (line 253) uses the callback of the render in
  which the click happened, although \<^verbatim>\<open>handleNewChat\<close> has changed the cells since.
\<close>

record Closure =
  cl_isLoading :: bool
  cl_activeChat :: "Chat option"
  cl_chatMessages :: "ChatMessage list"
  cl_file :: "UploadedFile option"
  cl_filePreview :: "string option"
  cl_isDeepResearchMode :: bool
  cl_activeModel :: ModelType
  cl_selectedWorkspace :: "string option"

text \<open>
  The component's state: the \<^verbatim>\<open>useState\<close> cells that the handlers below read or write,
  the ref \<^verbatim>\<open>isRequestCancelled\<close>, and, outside React, the calls in flight (\<open>turns\<close>),
  the counter behind \<^verbatim>\<open>crypto.randomUUID()\<close>, the rows sent to the history table
  (\<open>inserts\<close>, with the turn that sent each), the workspaces whose summary was
  requested, and the calls that \<^verbatim>\<open>setTimeout\<close> has scheduled (\<open>timers\<close>, each with the
  closure of its callback). The cell \<^verbatim>\<open>file\<close> is \<open>attachedFile\<close> here. Apart from the
  scheduled calls, every handler is taken to run against the state of the latest render.
\<close>

record PageState =
  isLoading :: bool
  error :: "string option"
  history :: "SearchHistoryItem list"
  activeChat :: "Chat option"
  chatMessages :: "ChatMessage list"
  attachedFile :: "UploadedFile option"
  filePreview :: "string option"
  relatedQueries :: "string list"
  isRelatedLoading :: bool
  activeView :: View
  selectedWorkspace :: "string option"
  isDeepResearchMode :: bool
  activeModel :: ModelType
  isRequestCancelled :: bool
  next_uuid :: nat
  turns :: "(nat \<times> Turn) list"
  inserts :: "(nat \<times> HistoryRow) list"
  summary_requests :: "string list"
  timers :: "(Closure \<times> string) list"

definition closure_of :: "PageState \<Rightarrow> Closure" where
  "closure_of s =
     \<lparr>cl_isLoading = isLoading s, cl_activeChat = activeChat s,
      cl_chatMessages = chatMessages s, cl_file = attachedFile s,
      cl_filePreview = filePreview s, cl_isDeepResearchMode = isDeepResearchMode s,
      cl_activeModel = activeModel s, cl_selectedWorkspace = selectedWorkspace s\<rparr>"

definition initial_state :: PageState where
  "initial_state =
     \<lparr>isLoading = False, error = None, history = [], activeChat = None, chatMessages = [],
      attachedFile = None, filePreview = None, relatedQueries = [], isRelatedLoading = False,
      activeView = ViewChat, selectedWorkspace = None, isDeepResearchMode = False,
      activeModel = Gemini, isRequestCancelled = False, next_uuid = 0, turns = [],
      inserts = [], summary_requests = [], timers = []\<rparr>"

text \<open>
  What the page imports and this development takes as given: the localisation function
  \<^verbatim>\<open>t\<close> and \<^verbatim>\<open>extractAndParseMarkdownTable\<close> of \<^verbatim>\<open>utils/markdownParser\<close>.
\<close>

record Env =
  translate :: "string \<Rightarrow> string"
  extractTable :: "string \<Rightarrow> string \<times> ComparisonTableData option"

subsection \<open>Handlers that run to completion\<close>

text \<open>\<^verbatim>\<open>handleStop\<close> (line 108)\<close>

definition handleStop :: "PageState \<Rightarrow> PageState" where
  "handleStop s = s\<lparr>isRequestCancelled := True, isLoading := False\<rparr>"

text \<open>\<^verbatim>\<open>resetChatState\<close> (lines 132-136)\<close>

definition resetChatState :: "PageState \<Rightarrow> PageState" where
  "resetChatState s =
     s\<lparr>isLoading := False, error := None, activeChat := None, chatMessages := [],
       attachedFile := None, filePreview := None, relatedQueries := [], isRelatedLoading := False\<rparr>"

text \<open>\<^verbatim>\<open>handleNewChat\<close> (lines 138-144)\<close>

definition handleNewChat :: "PageState \<Rightarrow> PageState" where
  "handleNewChat s =
     (resetChatState s)\<lparr>selectedWorkspace := None, isDeepResearchMode := False,
                         activeView := ViewChat\<rparr>"

text \<open>\<^verbatim>\<open>handleModelChange\<close> (line 254)\<close>

definition handleModelChange :: "ModelType \<Rightarrow> PageState \<Rightarrow> PageState" where
  "handleModelChange m s =
     (let s1 = s\<lparr>activeModel := m\<rparr>;
          s2 = (if m \<noteq> Gemini \<and> isDeepResearchMode s then s1\<lparr>isDeepResearchMode := False\<rparr>
                else s1)
      in if chatMessages s \<noteq> [] then handleNewChat s2 else s2)"

text \<open>\<^verbatim>\<open>prev.map(msg => msg.id === id ? {...msg, ...} : msg)\<close>\<close>

definition update_message ::
  "nat \<Rightarrow> (ChatMessage \<Rightarrow> ChatMessage) \<Rightarrow> ChatMessage list \<Rightarrow> ChatMessage list" where
  "update_message mid f msgs = map (\<lambda>msg. if m_id msg = mid then f msg else msg) msgs"

subsection \<open>handleSendMessage (lines 182-231)\<close>

text \<open>
  The part of the call before its stream: the guard of line 183, the reset of the cancel
  flag, the two new messages, and (on the new-chat path of the grounded provider) the
  reset of the related queries. What the call reads, it reads from its closure \<open>cl\<close>;
  what it writes, it writes to the page as it is now, the messages being appended to the
  current list (\<^verbatim>\<open>setChatMessages(prev => ...)\<close>). The reading of an attached file, which
  the code awaits before it opens the stream, is not a separate event.
\<close>

definition handleSendMessage :: "Closure \<Rightarrow> string \<Rightarrow> PageState \<Rightarrow> PageState" where
  "handleSendMessage cl query s =
     (if cl_isLoading cl \<or> (js_trim query = [] \<and> cl_file cl = None) then s
      else
        (let userId = next_uuid s;
             modelMessageId = next_uuid s + 1;
             userMessage =
               \<lparr>m_id = userId, m_role = User, m_content = query, m_sources = None,
                m_citations = None, m_table = None,
                m_file = (case cl_file cl of
                            None \<Rightarrow> None
                          | Some f \<Rightarrow>
                              if cl_activeModel cl = Gemini
                              then Some \<lparr>f_name = file_name f, f_type = file_type f,
                                         f_previewUrl = cl_filePreview cl\<rparr>
                              else None),
                m_images = ImagesUndefined\<rparr>;
             isNewChat = (if cl_activeModel cl = Mistral then cl_chatMessages cl = []
                          else cl_activeChat cl = None);
             modelMessage =
               \<lparr>m_id = modelMessageId, m_role = Model, m_content = [], m_sources = Some [],
                m_citations = Some [], m_table = None, m_file = None,
                m_images = (if isNewChat \<and> cl_activeModel cl = Gemini then ImagesNull
                            else ImagesUndefined)\<rparr>;
             turn =
               \<lparr>t_query = query, t_model = cl_activeModel cl, t_isNewChat = isNewChat,
                t_deep = cl_isDeepResearchMode cl, t_workspace = cl_selectedWorkspace cl,
                t_file = cl_file cl, t_chat = cl_activeChat cl, t_loop = loop_init,
                t_phase = Streaming, t_images_pending = False, t_related_pending = False\<rparr>
         in s\<lparr>isRequestCancelled := False, isLoading := True, error := None,
              activeView := ViewChat,
              chatMessages := chatMessages s @ [userMessage, modelMessage],
              attachedFile := None, filePreview := None,
              relatedQueries := (if cl_activeModel cl = Gemini \<and> isNewChat then []
                                 else relatedQueries s),
              next_uuid := next_uuid s + 2,
              turns := map_set modelMessageId turn (turns s)\<rparr>))"

text \<open>The \<^verbatim>\<open>finally\<close> block of line 230, which every exit of the call runs.\<close>

definition finish_turn :: "nat \<Rightarrow> Turn \<Rightarrow> PageState \<Rightarrow> PageState" where
  "finish_turn tid tr s =
     s\<lparr>isLoading := False, turns := map_set tid (tr\<lparr>t_phase := Finished\<rparr>) (turns s)\<rparr>"

text \<open>
  One iteration of the \<^verbatim>\<open>for await\<close> loop of the call \<open>tid\<close> (lines 198, 205, 214): with
  the flag set the loop breaks and the call returns (lines 206, 218); otherwise the chunk
  is merged and the visible message rewritten.
\<close>

definition on_chunk :: "nat \<Rightarrow> RawChunk \<Rightarrow> PageState \<Rightarrow> PageState" where
  "on_chunk tid r s =
     (case map_of (turns s) tid of
        None \<Rightarrow> s
      | Some tr \<Rightarrow>
          if t_phase tr \<noteq> Streaming then s
          else if isRequestCancelled s then finish_turn tid tr s
          else if t_model tr = Mistral then
            (let st = mistral_chunk (t_loop tr) r
             in s\<lparr>chatMessages :=
                     update_message tid (\<lambda>msg. msg\<lparr>m_content := fullText st\<rparr>) (chatMessages s),
                   turns := map_set tid (tr\<lparr>t_loop := st\<rparr>) (turns s)\<rparr>)
          else
            (let st = (if t_isNewChat tr
                       then new_chat_chunk (t_loop tr) (performSmartSearch_yield r)
                       else continuation_chunk (t_loop tr) r)
             in s\<lparr>chatMessages :=
                     update_message tid
                       (\<lambda>msg. msg\<lparr>m_content := fullText st,
                                   m_sources := Some (visible_sources st),
                                   m_citations := Some (visible_citations st)\<rparr>)
                       (chatMessages s),
                   turns := map_set tid (tr\<lparr>t_loop := st\<rparr>) (turns s)\<rparr>))"

text \<open>\<^verbatim>\<open>fileData ? [{inlineData}, {text: query}] : [{text: query}]\<close>\<close>

definition message_parts :: "UploadedFile option \<Rightarrow> string \<Rightarrow> Part list" where
  "message_parts f query =
     (case f of
        None \<Rightarrow> [TextPart query]
      | Some u \<Rightarrow> [InlineData (file_type u) (file_data u), TextPart query])"

definition startChat :: "(Role \<times> Part list) list \<Rightarrow> bool \<Rightarrow> Chat" where
  "startChat initialHistory isDeepResearch =
     \<lparr>chat_history = initialHistory, chat_deep = isDeepResearch\<rparr>"

definition history_row :: "Env \<Rightarrow> Turn \<Rightarrow> HistoryRow" where
  "history_row env tr =
     \<lparr>row_query = (if t_query tr \<noteq> [] then t_query tr else translate env ''search.fileAnalysis''),
      row_answer = fullText (t_loop tr),
      row_sources = (if t_model tr = Mistral then [] else visible_sources (t_loop tr)),
      row_is_deep_research = t_deep tr,
      row_workspace_id = (case t_workspace tr of
                            None \<Rightarrow> None
                          | Some w \<Rightarrow> if w \<noteq> [] then Some w else None)\<rparr>"

text \<open>
  The stream of the call \<open>tid\<close> ends. With the flag set the call returns. Otherwise, on the
  new-chat path of the grounded provider, the two enrichment requests are sent and the
  chat handle is created (lines 207-210); then, on every path, the table is extracted
  (lines 219-220) and, when the call began a new chat, the history row is sent (line 222),
  the call waiting for the reply.
\<close>

definition on_stream_end :: "Env \<Rightarrow> nat \<Rightarrow> PageState \<Rightarrow> PageState" where
  "on_stream_end env tid s =
     (case map_of (turns s) tid of
        None \<Rightarrow> s
      | Some tr \<Rightarrow>
          if t_phase tr \<noteq> Streaming then s
          else if isRequestCancelled s then finish_turn tid tr s
          else
            (let enrich = (t_model tr = Gemini \<and> t_isNewChat tr);
                 tr1 = (if enrich then tr\<lparr>t_images_pending := True, t_related_pending := True\<rparr>
                        else tr);
                 s1 = (if enrich
                       then s\<lparr>isRelatedLoading := True,
                               activeChat := Some (startChat
                                 [(User, message_parts (t_file tr) (t_query tr)),
                                  (Model, [TextPart (fullText (t_loop tr))])]
                                 (t_deep tr))\<rparr>
                       else s);
                 extracted = extractTable env (fullText (t_loop tr));
                 s2 = s1\<lparr>chatMessages :=
                           update_message tid
                             (\<lambda>msg. msg\<lparr>m_content := fst extracted, m_table := snd extracted\<rparr>)
                             (chatMessages s1)\<rparr>
             in if t_isNewChat tr
                then s2\<lparr>inserts := inserts s2 @ [(tid, history_row env tr)],
                        turns := map_set tid (tr1\<lparr>t_phase := AwaitingInsert\<rparr>) (turns s2)\<rparr>
                else finish_turn tid tr1 s2))"

text \<open>
  The stream of the call \<open>tid\<close> throws (lines 225-230). \<^verbatim>\<open>performSmartSearch\<close> and
  \<^verbatim>\<open>callMistral\<close> pass what was thrown through \<^verbatim>\<open>handleGeminiError\<close>; the stream of
  \<^verbatim>\<open>activeChat.sendMessageStream\<close> is consumed in the page itself and its exception
  arrives as thrown; when that exception is \<^verbatim>\<open>null\<close> or \<^verbatim>\<open>undefined\<close>, line 227 throws
  in its turn, so that nothing is shown, the placeholder stays and only the \<^verbatim>\<open>finally\<close>
  block runs.
\<close>

definition caught_message :: "Turn \<Rightarrow> Thrown \<Rightarrow> string option" where
  "caught_message tr e =
     (if t_model tr = Mistral \<or> t_isNewChat tr then Some (handleGeminiError e)
      else thrown_message e)"

definition on_stream_error :: "Env \<Rightarrow> nat \<Rightarrow> Thrown \<Rightarrow> PageState \<Rightarrow> PageState" where
  "on_stream_error env tid e s =
     (case map_of (turns s) tid of
        None \<Rightarrow> s
      | Some tr \<Rightarrow>
          if t_phase tr \<noteq> Streaming then s
          else if isRequestCancelled s then finish_turn tid tr s
          else if \<not> (t_model tr = Mistral \<or> t_isNewChat tr) \<and> message_access_throws e
          then finish_turn tid tr s
          else
            (let errorMessage = (case caught_message tr e of
                                   None \<Rightarrow> translate env ''search.error.unexpected''
                                 | Some m \<Rightarrow> if m \<noteq> [] then m
                                             else translate env ''search.error.unexpected'')
             in finish_turn tid tr
                  (s\<lparr>error := Some (if js_includes errorMessage ''API quota exceeded''
                                     then translate env ''search.error.quotaExceeded''
                                     else errorMessage),
                     chatMessages := filter (\<lambda>msg. m_id msg \<noteq> tid) (chatMessages s)\<rparr>)))"

text \<open>The reply to the insert arrives (line 223), then the \<^verbatim>\<open>finally\<close> block runs.\<close>

definition on_insert_done :: "nat \<Rightarrow> SearchHistoryItem option \<Rightarrow> PageState \<Rightarrow> PageState" where
  "on_insert_done tid insertedData s =
     (case map_of (turns s) tid of
        None \<Rightarrow> s
      | Some tr \<Rightarrow>
          if t_phase tr \<noteq> AwaitingInsert then s
          else
            finish_turn tid tr
              (case insertedData of
                 None \<Rightarrow> s
               | Some item \<Rightarrow>
                   s\<lparr>history := item # history s,
                     summary_requests := (case t_workspace tr of
                                            None \<Rightarrow> summary_requests s
                                          | Some w \<Rightarrow> summary_requests s @ [w])\<rparr>))"

text \<open>
  The promise of \<^verbatim>\<open>fetchImagesForSources\<close> resolves (line 207). Its \<^verbatim>\<open>catch\<close> callback
  is not modelled: the promise is never rejected (see the section on geminiService.ts).
\<close>

definition on_images_result ::
  "nat \<Rightarrow> ImageSearchResult list \<Rightarrow> PageState \<Rightarrow> PageState" where
  "on_images_result tid imgs s =
     (case map_of (turns s) tid of
        None \<Rightarrow> s
      | Some tr \<Rightarrow>
          if \<not> t_images_pending tr then s
          else
            (let s1 = s\<lparr>turns := map_set tid (tr\<lparr>t_images_pending := False\<rparr>) (turns s)\<rparr>
             in if isRequestCancelled s then s1
                else s1\<lparr>chatMessages :=
                          update_message tid (\<lambda>msg. msg\<lparr>m_images := ImagesList imgs\<rparr>)
                            (chatMessages s)\<rparr>))"

text \<open>
  The promise of \<^verbatim>\<open>generateRelatedQueries\<close> resolves (line 208): its \<^verbatim>\<open>then\<close> and its
  \<^verbatim>\<open>finally\<close> callbacks.
\<close>

definition on_related_result :: "nat \<Rightarrow> string list \<Rightarrow> PageState \<Rightarrow> PageState" where
  "on_related_result tid queries s =
     (case map_of (turns s) tid of
        None \<Rightarrow> s
      | Some tr \<Rightarrow>
          if \<not> t_related_pending tr then s
          else
            (let s1 = s\<lparr>turns := map_set tid (tr\<lparr>t_related_pending := False\<rparr>) (turns s)\<rparr>
             in if isRequestCancelled s then s1
                else s1\<lparr>relatedQueries := queries, isRelatedLoading := False\<rparr>))"

text \<open>
  \<^verbatim>\<open>handleRelatedQueryClick\<close> (line 253): a new chat at once, and a call of the
  \<^verbatim>\<open>handleSendMessage\<close> of the current render scheduled for later.
\<close>

definition handleRelatedQueryClick :: "string \<Rightarrow> PageState \<Rightarrow> PageState" where
  "handleRelatedQueryClick query s =
     (handleNewChat s)\<lparr>timers := timers s @ [(closure_of s, query)]\<rparr>"

text \<open>The oldest scheduled call runs.\<close>

definition on_timer :: "PageState \<Rightarrow> PageState" where
  "on_timer s =
     (case timers s of
        [] \<Rightarrow> s
      | scheduled # rest \<Rightarrow> handleSendMessage (fst scheduled) (snd scheduled) (s\<lparr>timers := rest\<rparr>))"

subsection \<open>Events\<close>

text \<open>
  What can happen to the page: the user's actions, the expiry of a timer, and for a call
  in flight the arrival of a chunk, the end or the failure of its stream, and the replies
  to its requests.
\<close>

datatype Event =
    Submit string
  | Stop
  | NewChat
  | ModelChange ModelType
  | RelatedQueryClick string
  | TimerFires
  | StreamChunk nat RawChunk
  | StreamEnd nat
  | StreamError nat Thrown
  | InsertDone nat "SearchHistoryItem option"
  | ImagesResult nat "ImageSearchResult list"
  | RelatedResult nat "string list"

fun step :: "Env \<Rightarrow> PageState \<Rightarrow> Event \<Rightarrow> PageState" where
  "step env s (Submit query) = handleSendMessage (closure_of s) query s"
| "step env s Stop = handleStop s"
| "step env s NewChat = handleNewChat s"
| "step env s (ModelChange m) = handleModelChange m s"
| "step env s (RelatedQueryClick query) = handleRelatedQueryClick query s"
| "step env s TimerFires = on_timer s"
| "step env s (StreamChunk tid r) = on_chunk tid r s"
| "step env s (StreamEnd tid) = on_stream_end env tid s"
| "step env s (StreamError tid e) = on_stream_error env tid e s"
| "step env s (InsertDone tid insertedData) = on_insert_done tid insertedData s"
| "step env s (ImagesResult tid imgs) = on_images_result tid imgs s"
| "step env s (RelatedResult tid queries) = on_related_result tid queries s"

definition run :: "Env \<Rightarrow> Event list \<Rightarrow> PageState" where
  "run env evs = foldl (step env) initial_state evs"

text \<open>
  The content and the images shown for a message, and whether a call's stream is still
  open.
\<close>

definition content_of :: "nat \<Rightarrow> PageState \<Rightarrow> string option" where
  "content_of mid s = map_option m_content (find (\<lambda>msg. m_id msg = mid) (chatMessages s))"


definition stream_open :: "nat \<Rightarrow> PageState \<Rightarrow> bool" where
  "stream_open tid s =
     (case map_of (turns s) tid of None \<Rightarrow> False | Some tr \<Rightarrow> t_phase tr = Streaming)"

text \<open>The related queries as rendered (lines 307-310).\<close>

definition shown_related :: "PageState \<Rightarrow> string list" where
  "shown_related s =
     (if 1 < length (chatMessages s) \<and> \<not> isLoading s \<and> activeModel s = Gemini \<and>
         activeChat s \<noteq> None \<and> \<not> isRelatedLoading s
      then relatedQueries s else [])"

text \<open>An environment for running examples: keys are shown as they are, no table is found.\<close>

definition plain_env :: Env where
  "plain_env = \<lparr>translate = (\<lambda>key. key), extractTable = (\<lambda>txt. (txt, None))\<rparr>"

subsection \<open>Example runs\<close>

definition text_chunk :: "string \<Rightarrow> RawChunk" where
  "text_chunk s = \<lparr>r_text = Some s, r_groundingChunks = None, r_citations = None\<rparr>"

text \<open>A first question on the grounded provider whose answer has begun to arrive.\<close>

definition first_turn_streaming :: "Event list" where
  "first_turn_streaming = [Submit ''q1'', StreamChunk 1 (text_chunk ''a'')]"

text \<open>The same, stopped by the user while the stream is open.\<close>

definition first_turn_stopped :: "Event list" where
  "first_turn_stopped = first_turn_streaming @ [Stop]"

text \<open>The same, run to its end, with the reply of the history table.\<close>

definition first_turn_completed :: "Event list" where
  "first_turn_completed = first_turn_streaming @ [StreamEnd 1, InsertDone 1 None]"

text \<open>
  What the SDK throws on an exhausted quota: an \<^verbatim>\<open>Error\<close> whose message is the JSON
  body of the reply, with \<^verbatim>\<open>error.status\<close> equal to \<^verbatim>\<open>RESOURCE_EXHAUSTED\<close>.
\<close>

definition quota_error :: Thrown where
  \<open>quota_error =
     JsError ''{"error":{"code":429,"message":"Resource has been exhausted","status":"RESOURCE_EXHAUSTED"}}''
       (Some \<lparr>err_status = Some ''RESOURCE_EXHAUSTED'',
              err_message = Some ''Resource has been exhausted''\<rparr>)\<close>

subsection \<open>What holds of the calls in flight after every run\<close>

definition fresh_ids :: "PageState \<Rightarrow> bool" where
  "fresh_ids s = (\<forall>tid tr. map_of (turns s) tid = Some tr \<longrightarrow> tid < next_uuid s)"

definition settled :: "PageState \<Rightarrow> bool" where
  "settled s =
     (\<forall>tid row. (tid, row) \<in> set (inserts s) \<longrightarrow>
        (\<exists>tr. map_of (turns s) tid = Some tr \<and> t_isNewChat tr \<and> t_phase tr \<noteq> Streaming))"

section \<open>The table extractor (utils/markdownParser)\<close>

text \<open>
  Modelled from the spec: the JSON object of the shape \<^verbatim>\<open>{text, table: {headers, rows}}\<close>
  that a well-formed block holds. The file \<^verbatim>\<open>utils/markdownParser\<close>, from which
  \<^verbatim>\<open>SearchPage.tsx\<close> imports \<^verbatim>\<open>extractAndParseMarkdownTable\<close>, is not among the sources.
\<close>

record TablePayload =
  p_text :: string
  p_table :: ComparisonTableData

text \<open>
  Modelled from the spec: where a pattern first occurs in a text, as the text before the
  occurrence and the text after it (a helper of the missing extractor).
\<close>

fun split_first :: "string \<Rightarrow> string \<Rightarrow> (string \<times> string) option" where
  "split_first pat [] = (if pat = [] then Some ([], []) else None)"
| "split_first pat (c # cs) =
     (if startsWith (c # cs) pat then Some ([], drop (length pat) (c # cs))
      else map_option (\<lambda>(before, after). (c # before, after)) (split_first pat cs))"

text \<open>
  Modelled from the spec: the trailing fenced block of section 4.3 of the missing
  extractor. The text, white space at its end aside, ends with a closing fence, and the
  block opens at the last \<^verbatim>\<open>```json\<close> before it, so that earlier code blocks are not taken
  for it. The result is the prose before the block and the block's body.
\<close>

definition trailing_block :: "string \<Rightarrow> (string \<times> string) option" where
  "trailing_block txt =
     (let r = dropWhile is_space (rev txt)
      in if \<not> startsWith r (rev fence) then None
         else (case split_first (rev (fence @ ''json'')) (drop (length fence) r) of
                 None \<Rightarrow> None
               | Some (body_rev, prose_rev) \<Rightarrow> Some (rev prose_rev, rev body_rev)))"

text \<open>
  Modelled from the spec: \<^verbatim>\<open>extractAndParseMarkdownTable\<close> of the missing
  \<^verbatim>\<open>utils/markdownParser\<close>, after section 4.3. The parameter \<open>parse\<close> reads a block body as
  JSON of the expected shape, \<open>None\<close> when the body is malformed or of another shape.
  With a well-formed trailing block the remaining text is the \<^verbatim>\<open>text\<close> member, or the
  prose before the block when that member is empty; otherwise the text is returned
  unchanged with no table.
\<close>

definition extractAndParseMarkdownTable ::
  "(string \<Rightarrow> TablePayload option) \<Rightarrow> string \<Rightarrow> string \<times> ComparisonTableData option" where
  "extractAndParseMarkdownTable parse answer =
     (case trailing_block answer of
        None \<Rightarrow> (answer, None)
      | Some (prose, body) \<Rightarrow>
          (case parse (js_trim body) of
             None \<Rightarrow> (answer, None)
           | Some p \<Rightarrow> (if p_text p = [] then prose else p_text p, Some (p_table p))))"

text \<open>The example of section 8 of the specification, and a parser that reads its block.\<close>

definition example_block :: string where
  \<open>example_block = ''{"text":"S","table":{"headers":["H1"],"rows":[["v1"]]}}''\<close>

definition example_answer :: string where
  "example_answer = ''Summary ```json'' @ [CHR 0x0A] @ example_block @ [CHR 0x0A] @ ''```''"

definition example_parse :: "string \<Rightarrow> TablePayload option" where
  "example_parse body =
     (if body = example_block
      then Some \<lparr>p_text = ''S'', p_table = \<lparr>headers = [''H1''], rows = [[''v1'']]\<rparr>\<rparr>
      else None)"

section \<open>Properties of the containers\<close>

lemma keys_map_set: "map fst (map_set k v m) = set_add k (map fst m)"
proof (induction m)
  case Nil
  then show ?case by (simp add: set_add_def)
next
  case (Cons p m)
  then show ?case by (cases p) (auto simp: set_add_def split: if_splits)
qed

lemma map_of_map_set: "map_of (map_set k v m) = (map_of m)(k \<mapsto> v)"
  by (induction m) auto

lemma length_map_set_present: "k \<in> set (map fst m) \<Longrightarrow> length (map_set k v m) = length m"
proof (induction m)
  case Nil
  then show ?case by simp
next
  case (Cons p m)
  obtain k' v' where p: "p = (k', v')" by (cases p)
  show ?case
  proof (cases "k' = k")
    case True
    then show ?thesis by (simp add: p)
  next
    case False
    with Cons.prems p have "k \<in> set (map fst m)" by auto
    with Cons.IH False show ?thesis by (simp add: p)
  qed
qed

lemma distinct_set_add: "distinct s \<Longrightarrow> distinct (set_add x s)"
  by (simp add: set_add_def)

lemma set_set_add: "set (set_add x s) = insert x (set s)"
  by (auto simp: set_add_def)

lemma foldl_set_add_distinct: "distinct s \<Longrightarrow> distinct (foldl (\<lambda>s x. set_add x s) s xs)"
  by (induction xs arbitrary: s) (simp_all add: distinct_set_add)

lemma foldl_set_add_set: "set (foldl (\<lambda>s x. set_add x s) s xs) = set s \<union> set xs"
  by (induction xs arbitrary: s) (auto simp: set_set_add)

lemma foldl_set_add_absorb: "set xs \<subseteq> set s \<Longrightarrow> foldl (\<lambda>s x. set_add x s) s xs = s"
  by (induction xs arbitrary: s) (simp_all add: set_add_def)

lemma distinct_new_Set: "distinct (new_Set xs)"
  by (simp add: new_Set_def foldl_set_add_distinct)

lemma set_new_Set: "set (new_Set xs) = set xs"
  by (simp add: new_Set_def foldl_set_add_set)

text \<open>
  Insertion order without repetition is the order of first occurrences: \<open>remdups\<close> keeps the
  last occurrence of each element, so it is applied to the reversed list.
\<close>

lemma remdups_drop_later:
  "x \<in> set zs \<Longrightarrow> remdups (ys @ x # zs) = remdups (ys @ zs)"
  by (induction ys) auto

lemma foldl_set_add_remdups:
  "distinct acc \<Longrightarrow> foldl (\<lambda>s x. set_add x s) acc xs = rev (remdups (rev (acc @ xs)))"
proof (induction xs arbitrary: acc)
  case Nil
  then show ?case by (simp add: distinct_remdups_id)
next
  case (Cons x xs)
  have "foldl (\<lambda>s x. set_add x s) (set_add x acc) xs = rev (remdups (rev (set_add x acc @ xs)))"
    using Cons.prems by (intro Cons.IH distinct_set_add)
  moreover have "remdups (rev (set_add x acc @ xs)) = remdups (rev (acc @ x # xs))"
    by (simp add: set_add_def remdups_drop_later)
  ultimately show ?case by simp
qed

lemma new_Set_first_occurrences: "new_Set xs = rev (remdups (rev xs))"
  using foldl_set_add_remdups [of "[]" xs] by (simp add: new_Set_def)

lemma forEach_set_append:
  "forEach_set key (xs @ ys) m = forEach_set key ys (forEach_set key xs m)"
  by (simp add: forEach_set_def)

lemma keys_forEach_set:
  "map fst (forEach_set key xs m) = foldl (\<lambda>s x. set_add x s) (map fst m) (map key xs)"
  unfolding forEach_set_def
  by (induction xs arbitrary: m) (simp_all add: keys_map_set)

lemma distinct_forEach_set:
  "distinct (map fst m) \<Longrightarrow> distinct (map fst (forEach_set key xs m))"
  by (simp add: keys_forEach_set foldl_set_add_distinct)

lemma map_of_forEach_set:
  "map_of (forEach_set key xs m) = map_of m ++ map_of (rev (map (\<lambda>x. (key x, x)) xs))"
  unfolding forEach_set_def
proof (induction xs arbitrary: m)
  case Nil
  then show ?case by simp
next
  case (Cons x xs)
  have "(map_of m)(key x \<mapsto> x) = map_of m ++ [key x \<mapsto> x]"
    by simp
  then show ?case
    by (simp add: Cons.IH map_of_map_set del: map_add_upd)
qed

lemma alist_eqI:
  "distinct (map fst xs) \<Longrightarrow> map fst xs = map fst ys \<Longrightarrow> map_of xs = map_of ys \<Longrightarrow> xs = ys"
proof (induction xs arbitrary: ys)
  case Nil
  then show ?case by simp
next
  case (Cons x xs)
  then obtain y ys' where ys: "ys = y # ys'" by (cases ys) auto
  obtain k v where x: "x = (k, v)" by (cases x)
  obtain k' v' where y: "y = (k', v')" by (cases y)
  from Cons.prems ys x y have kk: "k' = k" by simp
  from Cons.prems(3) have "map_of (x # xs) k = map_of ys k" by (rule arg_cong)
  with ys x y kk have vv: "v' = v" by simp
  have nk: "k \<notin> fst ` set xs" using Cons.prems(1) x by simp
  have "map fst xs = map fst ys'" using Cons.prems(2) ys by simp
  then have "fst ` set xs = fst ` set ys'" by (metis list.set_map)
  with nk have nk': "k \<notin> fst ` set ys'" by simp
  have "map_of xs = map_of ys'"
  proof
    fix a
    show "map_of xs a = map_of ys' a"
    proof (cases "a = k")
      case True
      then show ?thesis using nk nk' by (simp add: map_of_eq_None_iff[THEN iffD2])
    next
      case False
      from Cons.prems(3) have "map_of (x # xs) a = map_of ys a" by (rule arg_cong)
      then show ?thesis using False ys x y kk by simp
    qed
  qed
  moreover have "distinct (map fst xs)" "map fst xs = map fst ys'"
    using Cons.prems ys by auto
  ultimately have "xs = ys'" using Cons.IH by blast
  then show ?case using ys x y kk vv by simp
qed

lemma forEach_set_idem:
  assumes "distinct (map fst m)"
  shows "forEach_set key xs (forEach_set key xs m) = forEach_set key xs m"
proof (rule alist_eqI)
  show "distinct (map fst (forEach_set key xs (forEach_set key xs m)))"
    using assms by (simp add: distinct_forEach_set)
  have "set (map key xs) \<subseteq> set (map fst (forEach_set key xs m))"
    by (simp add: keys_forEach_set foldl_set_add_set)
  then show "map fst (forEach_set key xs (forEach_set key xs m)) = map fst (forEach_set key xs m)"
    using keys_forEach_set [of key xs "forEach_set key xs m"] foldl_set_add_absorb by metis
  show "map_of (forEach_set key xs (forEach_set key xs m)) = map_of (forEach_set key xs m)"
    by (rule ext) (simp add: map_of_forEach_set map_add_def split: option.splits)
qed

lemma keyed_Nil: "keyed key []"
  by (simp add: keyed_def)

lemma keyed_map_set: "keyed key m \<Longrightarrow> keyed key (map_set (key v) v m)"
  unfolding keyed_def by (induction m) (fastforce split: if_splits)+

lemma keyed_forEach_set: "keyed key m \<Longrightarrow> keyed key (forEach_set key xs m)"
  unfolding forEach_set_def
  by (induction xs arbitrary: m) (simp_all add: keyed_map_set)

lemma find_keyed: "keyed key m \<Longrightarrow> find (\<lambda>v. key v = k) (map snd m) = map_of m k"
  unfolding keyed_def by (induction m) auto

lemma map_of_keyed_pairs: "map_of (map (\<lambda>x. (key x, x)) ys) k = find (\<lambda>x. key x = k) ys"
  by (induction ys) auto

text \<open>
  After \<^verbatim>\<open>xs.forEach(x => m.set(key(x), x))\<close> the entry of a key is the last of the \<open>xs\<close>
  with that key, and the entry the map had when no \<open>x\<close> has the key.
\<close>

lemma find_after_forEach_set:
  assumes "keyed key m"
  shows "find (\<lambda>v. key v = k) (map_values (forEach_set key xs m)) =
         (case find (\<lambda>x. key x = k) (rev xs) of
            None \<Rightarrow> find (\<lambda>v. key v = k) (map_values m)
          | Some x \<Rightarrow> Some x)"
proof -
  have "keyed key (forEach_set key xs m)"
    using assms by (rule keyed_forEach_set)
  then have "find (\<lambda>v. key v = k) (map_values (forEach_set key xs m)) =
             map_of (forEach_set key xs m) k"
    unfolding map_values_def by (rule find_keyed)
  also have "\<dots> = (case map_of (map (\<lambda>x. (key x, x)) (rev xs)) k of
                      None \<Rightarrow> map_of m k | Some x \<Rightarrow> Some x)"
    by (simp add: map_of_forEach_set map_add_def rev_map)
  also have "\<dots> = (case find (\<lambda>x. key x = k) (rev xs) of
                      None \<Rightarrow> find (\<lambda>v. key v = k) (map_values m) | Some x \<Rightarrow> Some x)"
    using find_keyed [OF assms, of k]
    by (simp only: map_of_keyed_pairs map_values_def)
  finally show ?thesis .
qed

lemma last_in_forEach_set:
  assumes "xs \<noteq> []"
  shows "last xs \<in> set (map_values (forEach_set key xs m))"
proof -
  obtain ys y where xs: "xs = ys @ [y]"
    using assms by (metis rev_exhaust)
  have "map_of (forEach_set key xs m) (key y) = Some y"
    by (simp add: xs forEach_set_append forEach_set_def map_of_map_set)
  then have "(key y, y) \<in> set (forEach_set key xs m)"
    by (rule map_of_SomeD)
  then show ?thesis
    by (force simp: xs map_values_def)
qed

section \<open>Properties of the stream loops\<close>

lemma sourcesMap_new_chat_chunk:
  "sourcesMap (new_chat_chunk st c) = merge_sources (chunk_srcs c) (sourcesMap st)"
  by (simp add: new_chat_chunk_def chunk_srcs_def merge_sources_def forEach_set_def
      split: option.splits)

lemma sourcesMap_continuation_chunk:
  "sourcesMap (continuation_chunk st r) = merge_sources (raw_srcs r) (sourcesMap st)"
  by (simp add: continuation_chunk_def raw_srcs_def merge_sources_def forEach_set_def
      split: option.splits)

lemma sourcesMap_foldl_new_chat:
  "sourcesMap (foldl new_chat_chunk st cs) =
   merge_sources (concat (map chunk_srcs cs)) (sourcesMap st)"
proof (induction cs arbitrary: st)
  case Nil
  then show ?case by (simp add: merge_sources_def forEach_set_def)
next
  case (Cons c cs)
  then show ?case
    by (simp add: sourcesMap_new_chat_chunk merge_sources_def forEach_set_append)
qed

lemma sourcesMap_foldl_continuation:
  "sourcesMap (foldl continuation_chunk st rs) =
   merge_sources (concat (map raw_srcs rs)) (sourcesMap st)"
proof (induction rs arbitrary: st)
  case Nil
  then show ?case by (simp add: merge_sources_def forEach_set_def)
next
  case (Cons r rs)
  then show ?case
    by (simp add: sourcesMap_continuation_chunk merge_sources_def forEach_set_append)
qed

lemma uris_merge_from_empty:
  "map uri (map_values (merge_sources ss [])) = new_Set (map uri ss)"
proof -
  have "keyed uri (forEach_set uri ss [])"
    by (rule keyed_forEach_set) (rule keyed_Nil)
  then have "map uri (map snd (forEach_set uri ss [])) = map fst (forEach_set uri ss [])"
    by (simp only: keyed_def)
  then show ?thesis
    by (simp only: map_values_def merge_sources_def keys_forEach_set new_Set_def list.map)
qed

section \<open>The enrichment tasks of geminiService.ts\<close>

lemma generateRelatedQueries_returns: "\<exists>qs. generateRelatedQueries parse api = Inr qs"
  by (cases "generateRelatedQueries_try parse api") (simp_all add: generateRelatedQueries_def)

lemma fetchImagesForSources_returns: "\<exists>rs. fetchImagesForSources parse api q ss = Inr rs"
  by (cases "fetchImagesForSources_try parse api") (simp_all add: fetchImagesForSources_def)

lemma generateRelatedQueries_try_bounds:
  assumes "generateRelatedQueries_try parse api = Inr qs"
  shows "length qs \<le> 5 \<and> distinct qs"
proof -
  from assms obtain strs where "qs = take 5 (new_Set strs)"
    by (auto simp: generateRelatedQueries_try_def Let_def
        split: ApiOutcome.splits option.splits json.splits)
  then show ?thesis
    by (simp add: distinct_new_Set)
qed

text \<open>
  C9. For every reply of the model and every parser, the two enrichment tasks resolve to an
  array and never reject: \<^verbatim>\<open>generateRelatedQueries\<close> resolves to the empty array
  whenever its \<^verbatim>\<open>try\<close> block raises, and \<^verbatim>\<open>fetchImagesForSources\<close> resolves to the
  empty array whenever its \<^verbatim>\<open>try\<close> block raises and also whenever the query is blank
  or the source list is empty.
\<close>

theorem enrichment_tasks_degrade_to_empty:
  "(\<exists>qs. generateRelatedQueries parse api = Inr qs) \<and>
   (\<forall>e. generateRelatedQueries_try parse api = Inl e \<longrightarrow>
        generateRelatedQueries parse api = Inr []) \<and>
   (\<exists>rs. fetchImagesForSources parse api q ss = Inr rs) \<and>
   (\<forall>e. fetchImagesForSources_try parse api = Inl e \<longrightarrow>
        fetchImagesForSources parse api q ss = Inr []) \<and>
   (js_trim q = [] \<or> ss = [] \<longrightarrow> fetchImagesForSources parse api q ss = Inr [])"
proof (intro conjI allI impI)
  show "\<exists>qs. generateRelatedQueries parse api = Inr qs"
    by (rule generateRelatedQueries_returns)
  show "\<exists>rs. fetchImagesForSources parse api q ss = Inr rs"
    by (rule fetchImagesForSources_returns)
next
  fix e
  assume "generateRelatedQueries_try parse api = Inl e"
  then show "generateRelatedQueries parse api = Inr []"
    by (simp add: generateRelatedQueries_def)
next
  fix e
  assume "fetchImagesForSources_try parse api = Inl e"
  then show "fetchImagesForSources parse api q ss = Inr []"
    by (simp add: fetchImagesForSources_def)
next
  assume "js_trim q = [] \<or> ss = []"
  then show "fetchImagesForSources parse api q ss = Inr []"
    by (auto simp: fetchImagesForSources_def)
qed

theorem enrichment_tasks_degrade_to_empty_witness:
  "generateRelatedQueries_try (\<lambda>s. None) ApiRejected = Inl RequestFailed \<and>
   generateRelatedQueries (\<lambda>s. None) ApiRejected = Inr [] \<and>
   fetchImagesForSources_try (\<lambda>s. None) ApiRejected = Inl RequestFailed \<and>
   fetchImagesForSources (\<lambda>s. None) ApiRejected ''cats'' [\<lparr>title = ''T'', uri = ''u''\<rparr>] = Inr [] \<and>
   js_trim ''  '' = [] \<and>
   fetchImagesForSources (\<lambda>s. None) (ApiResponse (Some ''[]'')) ''  '' [\<lparr>title = ''T'', uri = ''u''\<rparr>] = Inr []"
proof -
  have g: "generateRelatedQueries_try (\<lambda>s. None) ApiRejected = Inl RequestFailed"
    by (simp add: generateRelatedQueries_try_def)
  have f: "fetchImagesForSources_try (\<lambda>s. None) ApiRejected = Inl RequestFailed"
    by (simp add: fetchImagesForSources_try_def)
  have b: "js_trim ''  '' = []"
    by (simp add: js_trim_def is_space_def)
  note t1 = enrichment_tasks_degrade_to_empty
    [of "\<lambda>s. None" ApiRejected "''cats''" "[\<lparr>title = ''T'', uri = ''u''\<rparr>]"]
  note t2 = enrichment_tasks_degrade_to_empty
    [of "\<lambda>s. None" "ApiResponse (Some ''[]'')" "''  ''" "[\<lparr>title = ''T'', uri = ''u''\<rparr>]"]
  from t1 g have 1: "generateRelatedQueries (\<lambda>s. None) ApiRejected = Inr []" by blast
  from t1 f have 2: "fetchImagesForSources (\<lambda>s. None) ApiRejected ''cats''
      [\<lparr>title = ''T'', uri = ''u''\<rparr>] = Inr []" by blast
  from t2 b have 3: "fetchImagesForSources (\<lambda>s. None) (ApiResponse (Some ''[]'')) ''  ''
      [\<lparr>title = ''T'', uri = ''u''\<rparr>] = Inr []" by blast
  from g f b 1 2 3 show ?thesis by blast
qed

text \<open>
  C10. Whenever the \<^verbatim>\<open>try\<close> block of \<^verbatim>\<open>generateRelatedQueries\<close> completes, the array
  it returns, which is then the function's result, has at most five elements and they
  are pairwise distinct strings.
\<close>

theorem related_queries_at_most_five_distinct:
  "generateRelatedQueries_try parse api = Inr qs \<Longrightarrow>
   generateRelatedQueries parse api = Inr qs \<and> length qs \<le> 5 \<and> distinct qs"
  using generateRelatedQueries_try_bounds [of parse api qs]
  by (simp add: generateRelatedQueries_def)

theorem related_queries_at_most_five_distinct_witness:
  \<open>generateRelatedQueries
     (\<lambda>s. if s = ''["a","b","a","c","d","e","f"]''
          then Some (JArr [JStr ''a'', JStr ''b'', JStr ''a'', JStr ''c'', JStr ''d'', JStr ''e'',
                           JStr ''f''])
          else None)
     (ApiResponse (Some '' ["a","b","a","c","d","e","f"] '')) =
     Inr [''a'', ''b'', ''c'', ''d'', ''e''] \<and>
   length [''a'', ''b'', ''c'', ''d'', ''e''] \<le> 5 \<and>
   distinct [''a'', ''b'', ''c'', ''d'', ''e'']\<close>
proof -
  have h: \<open>generateRelatedQueries_try
     (\<lambda>s. if s = ''["a","b","a","c","d","e","f"]''
          then Some (JArr [JStr ''a'', JStr ''b'', JStr ''a'', JStr ''c'', JStr ''d'', JStr ''e'',
                           JStr ''f''])
          else None)
     (ApiResponse (Some '' ["a","b","a","c","d","e","f"] '')) =
     Inr [''a'', ''b'', ''c'', ''d'', ''e'']\<close>
    by (simp add: generateRelatedQueries_try_def js_trim_def is_space_def jsonBlockRegex_def
        fence_def new_Set_def set_add_def)
  show ?thesis
    by (rule related_queries_at_most_five_distinct [OF h])
qed

section \<open>The source/citation merger\<close>

lemma merger_inv_init: "merger_inv loop_init"
  by (simp add: merger_inv_def loop_init_def keyed_Nil)

lemma merger_inv_new_chat_chunk: "merger_inv st \<Longrightarrow> merger_inv (new_chat_chunk st c)"
  by (simp add: merger_inv_def new_chat_chunk_def merge_sources_def merge_citations_def
      distinct_forEach_set keyed_forEach_set split: option.splits)

lemma merger_inv_continuation_chunk: "merger_inv st \<Longrightarrow> merger_inv (continuation_chunk st r)"
  by (simp add: merger_inv_def continuation_chunk_def merge_sources_def merge_citations_def
      distinct_forEach_set keyed_forEach_set split: option.splits)

lemma merger_inv_foldl_new_chat: "merger_inv st \<Longrightarrow> merger_inv (foldl new_chat_chunk st cs)"
  by (induction cs arbitrary: st) (simp_all add: merger_inv_new_chat_chunk)

lemma merger_inv_foldl_continuation:
  "merger_inv st \<Longrightarrow> merger_inv (foldl continuation_chunk st rs)"
  by (induction rs arbitrary: st) (simp_all add: merger_inv_continuation_chunk)

lemma merger_inv_new_chat_loop: "merger_inv (new_chat_loop cs)"
  by (simp add: new_chat_loop_def merger_inv_init merger_inv_foldl_new_chat)

lemma merger_inv_continuation_loop: "merger_inv (continuation_loop rs)"
  by (simp add: continuation_loop_def merger_inv_init merger_inv_foldl_continuation)

lemma uris_visible_sources: "merger_inv st \<Longrightarrow> map uri (visible_sources st) = map fst (sourcesMap st)"
  by (simp only: merger_inv_def visible_sources_def map_values_def keyed_def)

lemma keys_visible_citations:
  "merger_inv st \<Longrightarrow> map citation_key (visible_citations st) = map fst (citationsMap st)"
  by (simp only: merger_inv_def visible_citations_def map_values_def keyed_def)

lemma uris_after_merge:
  assumes "merger_inv st" and "set (map uri ss) \<subseteq> set (map uri (visible_sources st))"
  shows "map fst (merge_sources ss (sourcesMap st)) = map fst (sourcesMap st)"
proof -
  from assms have "set (map uri ss) \<subseteq> set (map fst (sourcesMap st))"
    by (simp add: uris_visible_sources)
  then show ?thesis
    unfolding merge_sources_def keys_forEach_set by (rule foldl_set_add_absorb)
qed

lemma uris_of_merged:
  assumes "merger_inv st"
  shows "map uri (map_values (merge_sources ss (sourcesMap st))) =
         map fst (merge_sources ss (sourcesMap st))"
proof -
  from assms have "keyed uri (sourcesMap st)"
    by (simp add: merger_inv_def)
  then have "keyed uri (forEach_set uri ss (sourcesMap st))"
    by (rule keyed_forEach_set)
  then show ?thesis
    by (simp only: merge_sources_def map_values_def keyed_def)
qed

lemma uris_after_chunk:
  assumes "merger_inv st"
  shows "map uri (map_values (merge_sources ss (sourcesMap st))) =
         foldl (\<lambda>seen x. set_add x seen) (map uri (visible_sources st)) (map uri ss)"
proof -
  have "map uri (map_values (merge_sources ss (sourcesMap st))) =
        map fst (merge_sources ss (sourcesMap st))"
    using assms by (rule uris_of_merged)
  also have "\<dots> = foldl (\<lambda>seen x. set_add x seen) (map fst (sourcesMap st)) (map uri ss)"
    by (simp only: merge_sources_def keys_forEach_set)
  also have "map fst (sourcesMap st) = map uri (visible_sources st)"
    using assms by (simp only: uris_visible_sources)
  finally show ?thesis .
qed

lemma present_source_keeps_uris:
  assumes "merger_inv st" and "set (map uri ss) \<subseteq> set (map uri (visible_sources st))"
  shows "map uri (map_values (merge_sources ss (sourcesMap st))) = map uri (visible_sources st)"
  using assms by (simp add: uris_of_merged uris_after_merge uris_visible_sources)

lemma same_pair_same_key:
  "startIndex k = startIndex k' \<Longrightarrow> cit_uri k = cit_uri k' \<Longrightarrow> citation_key k = citation_key k'"
  by (simp add: citation_key_def)

lemma present_citation_keeps_count:
  assumes "merger_inv st" and "startIndex k = startIndex k'" and "cit_uri k = cit_uri k'"
    and "k' \<in> set (visible_citations st)"
  shows "length (map_values (merge_citations [k] (citationsMap st))) =
         length (visible_citations st)"
proof -
  have "citation_key k' \<in> set (map citation_key (visible_citations st))"
    using assms(4) by simp
  then have "citation_key k \<in> set (map fst (citationsMap st))"
    using assms(1,2,3) by (simp add: keys_visible_citations same_pair_same_key [of k k'])
  then show ?thesis
    by (simp add: merge_citations_def forEach_set_def map_values_def visible_citations_def
        length_map_set_present)
qed

lemma present_source_keeps_count:
  assumes "merger_inv st" and "uri s \<in> set (map uri (visible_sources st))"
  shows "length (map_values (merge_sources [s] (sourcesMap st))) = length (visible_sources st)"
proof -
  from assms have "uri s \<in> set (map fst (sourcesMap st))"
    by (simp add: uris_visible_sources)
  then show ?thesis
    by (simp add: merge_sources_def forEach_set_def map_values_def visible_sources_def
        length_map_set_present)
qed

lemma new_chat_chunk_twice:
  assumes "merger_inv st"
  shows "sourcesMap (new_chat_chunk (new_chat_chunk st c) c) = sourcesMap (new_chat_chunk st c)"
    and "citationsMap (new_chat_chunk (new_chat_chunk st c) c) = citationsMap (new_chat_chunk st c)"
  using assms
  by (simp_all add: merger_inv_def new_chat_chunk_def merge_sources_def merge_citations_def
      forEach_set_idem split: option.splits)

lemma continuation_chunk_twice:
  assumes "merger_inv st"
  shows "sourcesMap (continuation_chunk (continuation_chunk st r) r) =
         sourcesMap (continuation_chunk st r)"
    and "citationsMap (continuation_chunk (continuation_chunk st r) r) =
         citationsMap (continuation_chunk st r)"
  using assms
  by (simp_all add: merger_inv_def continuation_chunk_def merge_sources_def merge_citations_def
      forEach_set_idem split: option.splits)

text \<open>The example of section 8 of the specification: sources \<^verbatim>\<open>a\<close>, \<^verbatim>\<open>a\<close>, \<^verbatim>\<open>b\<close> merge to \<^verbatim>\<open>a\<close>, \<^verbatim>\<open>b\<close>.\<close>

lemma merged_sources_example:
  "map uri (visible_sources (new_chat_loop
     [\<lparr>c_text = None, c_sources = Some [\<lparr>title = ''A'', uri = ''a''\<rparr>], c_citations = None\<rparr>,
      \<lparr>c_text = None,
         c_sources = Some [\<lparr>title = ''A'', uri = ''a''\<rparr>, \<lparr>title = ''B'', uri = ''b''\<rparr>],
         c_citations = None\<rparr>])) = [''a'', ''b'']"
  by code_simp

text \<open>
  C1, as the code has it. For every sequence of chunks, on the new-chat path and on the
  continuation path, the \<^verbatim>\<open>uri\<close>s of the merged source list are the \<^verbatim>\<open>uri\<close>s of the
  delivered sources without repetition, in first-seen order. A chunk all of whose sources
  carry a \<^verbatim>\<open>uri\<close> that is already present leaves that sequence of \<^verbatim>\<open>uri\<close>s (so the
  length and the order of the list) unchanged; in general a chunk appends the \<^verbatim>\<open>uri\<close>s
  it brings for the first time, in their order. The stored entry is not kept, however:
  \<^verbatim>\<open>Map.set\<close> replaces it. After a chunk, the entry shown for a \<^verbatim>\<open>uri\<close> is the last
  source of the chunk with that \<^verbatim>\<open>uri\<close>, title included, and the entry shown before
  when the chunk has no source with that \<^verbatim>\<open>uri\<close>; in particular the last source of a
  chunk is in the list after the chunk.
\<close>

theorem sources_first_seen_order_last_title:
  "map uri (visible_sources (new_chat_loop cs)) = new_Set (map uri (concat (map chunk_srcs cs))) \<and>
   map uri (visible_sources (continuation_loop rs)) = new_Set (map uri (concat (map raw_srcs rs))) \<and>
   distinct (map uri (visible_sources (new_chat_loop cs))) \<and>
   distinct (map uri (visible_sources (continuation_loop rs))) \<and>
   (merger_inv st \<and> set (map uri (chunk_srcs c)) \<subseteq> set (map uri (visible_sources st)) \<longrightarrow>
      map uri (visible_sources (new_chat_chunk st c)) = map uri (visible_sources st)) \<and>
   (merger_inv st \<and> set (map uri (raw_srcs r)) \<subseteq> set (map uri (visible_sources st)) \<longrightarrow>
      map uri (visible_sources (continuation_chunk st r)) = map uri (visible_sources st)) \<and>
   (chunk_srcs c \<noteq> [] \<longrightarrow> last (chunk_srcs c) \<in> set (visible_sources (new_chat_chunk st c))) \<and>
   (raw_srcs r \<noteq> [] \<longrightarrow> last (raw_srcs r) \<in> set (visible_sources (continuation_chunk st r))) \<and>
   (merger_inv st \<longrightarrow>
      find (\<lambda>s. uri s = u) (visible_sources (new_chat_chunk st c)) =
      (case find (\<lambda>s. uri s = u) (rev (chunk_srcs c)) of
         None \<Rightarrow> find (\<lambda>s. uri s = u) (visible_sources st)
       | Some s \<Rightarrow> Some s)) \<and>
   (merger_inv st \<longrightarrow>
      find (\<lambda>s. uri s = u) (visible_sources (continuation_chunk st r)) =
      (case find (\<lambda>s. uri s = u) (rev (raw_srcs r)) of
         None \<Rightarrow> find (\<lambda>s. uri s = u) (visible_sources st)
       | Some s \<Rightarrow> Some s)) \<and>
   (merger_inv st \<longrightarrow>
      map uri (visible_sources (new_chat_chunk st c)) =
      foldl (\<lambda>seen x. set_add x seen) (map uri (visible_sources st)) (map uri (chunk_srcs c))) \<and>
   (merger_inv st \<longrightarrow>
      map uri (visible_sources (continuation_chunk st r)) =
      foldl (\<lambda>seen x. set_add x seen) (map uri (visible_sources st)) (map uri (raw_srcs r)))"
proof -
  have a: "map uri (visible_sources (new_chat_loop cs)) =
           new_Set (map uri (concat (map chunk_srcs cs)))"
    by (simp add: visible_sources_def new_chat_loop_def sourcesMap_foldl_new_chat loop_init_def
        uris_merge_from_empty)
  have b: "map uri (visible_sources (continuation_loop rs)) =
           new_Set (map uri (concat (map raw_srcs rs)))"
    by (simp add: visible_sources_def continuation_loop_def sourcesMap_foldl_continuation
        loop_init_def uris_merge_from_empty)
  have c: "distinct (map uri (visible_sources (new_chat_loop cs)))"
    unfolding a by (rule distinct_new_Set)
  have d: "distinct (map uri (visible_sources (continuation_loop rs)))"
    unfolding b by (rule distinct_new_Set)
  have e: "merger_inv st \<and> set (map uri (chunk_srcs c)) \<subseteq> set (map uri (visible_sources st)) \<longrightarrow>
           map uri (visible_sources (new_chat_chunk st c)) = map uri (visible_sources st)"
    using present_source_keeps_uris [of st "chunk_srcs c"]
    by (simp add: visible_sources_def sourcesMap_new_chat_chunk)
  have f: "merger_inv st \<and> set (map uri (raw_srcs r)) \<subseteq> set (map uri (visible_sources st)) \<longrightarrow>
           map uri (visible_sources (continuation_chunk st r)) = map uri (visible_sources st)"
    using present_source_keeps_uris [of st "raw_srcs r"]
    by (simp add: visible_sources_def sourcesMap_continuation_chunk)
  have g: "chunk_srcs c \<noteq> [] \<longrightarrow> last (chunk_srcs c) \<in> set (visible_sources (new_chat_chunk st c))"
    using last_in_forEach_set [of "chunk_srcs c" uri "sourcesMap st"]
    by (simp add: visible_sources_def sourcesMap_new_chat_chunk merge_sources_def)
  have h: "raw_srcs r \<noteq> [] \<longrightarrow> last (raw_srcs r) \<in> set (visible_sources (continuation_chunk st r))"
    using last_in_forEach_set [of "raw_srcs r" uri "sourcesMap st"]
    by (simp add: visible_sources_def sourcesMap_continuation_chunk merge_sources_def)
  have i: "merger_inv st \<longrightarrow>
      find (\<lambda>s. uri s = u) (visible_sources (new_chat_chunk st c)) =
      (case find (\<lambda>s. uri s = u) (rev (chunk_srcs c)) of
         None \<Rightarrow> find (\<lambda>s. uri s = u) (visible_sources st)
       | Some s \<Rightarrow> Some s)"
  proof
    assume "merger_inv st"
    then have "keyed uri (sourcesMap st)"
      by (simp add: merger_inv_def)
    then show "find (\<lambda>s. uri s = u) (visible_sources (new_chat_chunk st c)) =
      (case find (\<lambda>s. uri s = u) (rev (chunk_srcs c)) of
         None \<Rightarrow> find (\<lambda>s. uri s = u) (visible_sources st)
       | Some s \<Rightarrow> Some s)"
      unfolding visible_sources_def sourcesMap_new_chat_chunk merge_sources_def
      by (rule find_after_forEach_set)
  qed
  have j: "merger_inv st \<longrightarrow>
      find (\<lambda>s. uri s = u) (visible_sources (continuation_chunk st r)) =
      (case find (\<lambda>s. uri s = u) (rev (raw_srcs r)) of
         None \<Rightarrow> find (\<lambda>s. uri s = u) (visible_sources st)
       | Some s \<Rightarrow> Some s)"
  proof
    assume "merger_inv st"
    then have "keyed uri (sourcesMap st)"
      by (simp add: merger_inv_def)
    then show "find (\<lambda>s. uri s = u) (visible_sources (continuation_chunk st r)) =
      (case find (\<lambda>s. uri s = u) (rev (raw_srcs r)) of
         None \<Rightarrow> find (\<lambda>s. uri s = u) (visible_sources st)
       | Some s \<Rightarrow> Some s)"
      unfolding visible_sources_def sourcesMap_continuation_chunk merge_sources_def
      by (rule find_after_forEach_set)
  qed
  have k: "merger_inv st \<longrightarrow>
      map uri (visible_sources (new_chat_chunk st c)) =
      foldl (\<lambda>seen x. set_add x seen) (map uri (visible_sources st)) (map uri (chunk_srcs c))"
    using uris_after_chunk [of st "chunk_srcs c"]
    by (simp add: visible_sources_def sourcesMap_new_chat_chunk)
  have l: "merger_inv st \<longrightarrow>
      map uri (visible_sources (continuation_chunk st r)) =
      foldl (\<lambda>seen x. set_add x seen) (map uri (visible_sources st)) (map uri (raw_srcs r))"
    using uris_after_chunk [of st "raw_srcs r"]
    by (simp add: visible_sources_def sourcesMap_continuation_chunk)
  from a b c d e f g h i j k l show ?thesis by blast
qed

theorem sources_first_seen_order_last_title_witness:
  "merger_inv (new_chat_loop [\<lparr>c_text = Some ''x'', c_sources = Some [\<lparr>title = ''First'', uri = ''a''\<rparr>],
      c_citations = None\<rparr>]) \<and>
   set (map uri (chunk_srcs \<lparr>c_text = None, c_sources = Some [\<lparr>title = ''Second'', uri = ''a''\<rparr>],
      c_citations = None\<rparr>)) \<subseteq>
   set (map uri (visible_sources (new_chat_loop [\<lparr>c_text = Some ''x'',
      c_sources = Some [\<lparr>title = ''First'', uri = ''a''\<rparr>], c_citations = None\<rparr>]))) \<and>
   map uri (visible_sources (new_chat_chunk
      (new_chat_loop [\<lparr>c_text = Some ''x'', c_sources = Some [\<lparr>title = ''First'', uri = ''a''\<rparr>],
         c_citations = None\<rparr>])
      \<lparr>c_text = None, c_sources = Some [\<lparr>title = ''Second'', uri = ''a''\<rparr>], c_citations = None\<rparr>)) =
   map uri (visible_sources (new_chat_loop [\<lparr>c_text = Some ''x'',
      c_sources = Some [\<lparr>title = ''First'', uri = ''a''\<rparr>], c_citations = None\<rparr>])) \<and>
   chunk_srcs \<lparr>c_text = None, c_sources = Some [\<lparr>title = ''Second'', uri = ''a''\<rparr>],
      c_citations = None\<rparr> \<noteq> [] \<and>
   \<lparr>title = ''Second'', uri = ''a''\<rparr> \<in> set (visible_sources (new_chat_chunk
      (new_chat_loop [\<lparr>c_text = Some ''x'', c_sources = Some [\<lparr>title = ''First'', uri = ''a''\<rparr>],
         c_citations = None\<rparr>])
      \<lparr>c_text = None, c_sources = Some [\<lparr>title = ''Second'', uri = ''a''\<rparr>], c_citations = None\<rparr>)) \<and>
   set (map uri (raw_srcs \<lparr>r_text = None,
      r_groundingChunks = Some [Some \<lparr>web_uri = Some ''a'', web_title = Some ''Third''\<rparr>],
      r_citations = None\<rparr>)) \<subseteq>
   set (map uri (visible_sources (new_chat_loop [\<lparr>c_text = Some ''x'',
      c_sources = Some [\<lparr>title = ''First'', uri = ''a''\<rparr>], c_citations = None\<rparr>]))) \<and>
   map uri (visible_sources (continuation_chunk
      (new_chat_loop [\<lparr>c_text = Some ''x'', c_sources = Some [\<lparr>title = ''First'', uri = ''a''\<rparr>],
         c_citations = None\<rparr>])
      \<lparr>r_text = None,
       r_groundingChunks = Some [Some \<lparr>web_uri = Some ''a'', web_title = Some ''Third''\<rparr>],
       r_citations = None\<rparr>)) =
   map uri (visible_sources (new_chat_loop [\<lparr>c_text = Some ''x'',
      c_sources = Some [\<lparr>title = ''First'', uri = ''a''\<rparr>], c_citations = None\<rparr>])) \<and>
   \<lparr>title = ''Third'', uri = ''a''\<rparr> \<in> set (visible_sources (continuation_chunk
      (new_chat_loop [\<lparr>c_text = Some ''x'', c_sources = Some [\<lparr>title = ''First'', uri = ''a''\<rparr>],
         c_citations = None\<rparr>])
      \<lparr>r_text = None,
       r_groundingChunks = Some [Some \<lparr>web_uri = Some ''a'', web_title = Some ''Third''\<rparr>],
       r_citations = None\<rparr>)) \<and>
   find (\<lambda>s. uri s = ''a'') (visible_sources (new_chat_chunk
      (new_chat_loop [\<lparr>c_text = Some ''x'', c_sources = Some [\<lparr>title = ''First'', uri = ''a''\<rparr>],
         c_citations = None\<rparr>])
      \<lparr>c_text = None, c_sources = Some [\<lparr>title = ''Second'', uri = ''a''\<rparr>], c_citations = None\<rparr>)) =
   Some \<lparr>title = ''Second'', uri = ''a''\<rparr> \<and>
   find (\<lambda>s. uri s = ''a'') (visible_sources (continuation_chunk
      (new_chat_loop [\<lparr>c_text = Some ''x'', c_sources = Some [\<lparr>title = ''First'', uri = ''a''\<rparr>],
         c_citations = None\<rparr>])
      \<lparr>r_text = None,
       r_groundingChunks = Some [Some \<lparr>web_uri = Some ''a'', web_title = Some ''Third''\<rparr>],
       r_citations = None\<rparr>)) =
   Some \<lparr>title = ''Third'', uri = ''a''\<rparr>"
  (is "?inv \<and> ?sub \<and> ?same \<and> ?ne \<and> ?mem \<and> ?rsub \<and> ?rsame \<and> ?rmem \<and> ?entry \<and> ?rentry")
proof -
  let ?c1 = "\<lparr>c_text = Some ''x'', c_sources = Some [\<lparr>title = ''First'', uri = ''a''\<rparr>],
      c_citations = None\<rparr>"
  let ?c2 = "\<lparr>c_text = None, c_sources = Some [\<lparr>title = ''Second'', uri = ''a''\<rparr>],
      c_citations = None\<rparr>"
  let ?r = "\<lparr>r_text = None,
      r_groundingChunks = Some [Some \<lparr>web_uri = Some ''a'', web_title = Some ''Third''\<rparr>],
      r_citations = None\<rparr>"
  note T = sources_first_seen_order_last_title
    [of "[?c1, ?c2]" "[?r]" "new_chat_loop [?c1]" ?c2 ?r "''a''"]
  have inv: ?inv
    by (rule merger_inv_new_chat_loop)
  have vis: "visible_sources (new_chat_loop [?c1]) = [\<lparr>title = ''First'', uri = ''a''\<rparr>]"
    by (simp add: visible_sources_def map_values_def new_chat_loop_def loop_init_def
        new_chat_chunk_def merge_sources_def forEach_set_def)
  have srcs: "chunk_srcs ?c2 = [\<lparr>title = ''Second'', uri = ''a''\<rparr>]"
    by (simp add: chunk_srcs_def)
  have rsrcs: "raw_srcs ?r = [\<lparr>title = ''Third'', uri = ''a''\<rparr>]"
    by (simp add: raw_srcs_def to_sources_def List.map_filter_def web_source_def)
  have sub: ?sub
    by (simp only: vis srcs) simp
  have rsub: ?rsub
    by (simp only: vis rsrcs) simp
  have ne: ?ne
    by (simp only: srcs) simp
  from T inv sub have same: ?same
    by blast
  from T ne have "last (chunk_srcs ?c2) \<in> set (visible_sources (new_chat_chunk (new_chat_loop [?c1]) ?c2))"
    by blast
  then have mem: ?mem
    by (simp add: srcs)
  have "raw_srcs ?r \<noteq> []"
    by (simp only: rsrcs) simp
  with T have "last (raw_srcs ?r) \<in>
      set (visible_sources (continuation_chunk (new_chat_loop [?c1]) ?r))"
    by blast
  then have rmem: ?rmem
    by (simp add: rsrcs)
  from T inv rsub have rsame: ?rsame
    by blast
  from T inv have "find (\<lambda>s. uri s = ''a'')
      (visible_sources (new_chat_chunk (new_chat_loop [?c1]) ?c2)) =
      (case find (\<lambda>s. uri s = ''a'') (rev (chunk_srcs ?c2)) of
         None \<Rightarrow> find (\<lambda>s. uri s = ''a'') (visible_sources (new_chat_loop [?c1]))
       | Some s \<Rightarrow> Some s)"
    by blast
  then have entry: ?entry
    by (simp add: srcs)
  from T inv have "find (\<lambda>s. uri s = ''a'')
      (visible_sources (continuation_chunk (new_chat_loop [?c1]) ?r)) =
      (case find (\<lambda>s. uri s = ''a'') (rev (raw_srcs ?r)) of
         None \<Rightarrow> find (\<lambda>s. uri s = ''a'') (visible_sources (new_chat_loop [?c1]))
       | Some s \<Rightarrow> Some s)"
    by blast
  then have rentry: ?rentry
    by (simp add: rsrcs)
  from inv sub same ne mem rsub rsame rmem entry rentry show ?thesis
    by blast
qed

text \<open>
  C1 as the specification words it fails: after a first chunk with the source
  \<^verbatim>\<open>{title: "First", uri: "a"}\<close>, a second chunk with \<^verbatim>\<open>{title: "Second", uri: "a"}\<close>
  is not a no-op, the stored title becomes \<^verbatim>\<open>Second\<close>.
\<close>

theorem repeated_uri_replaces_title_counterexample:
  "visible_sources (new_chat_loop
     [\<lparr>c_text = None, c_sources = Some [\<lparr>title = ''First'', uri = ''a''\<rparr>], c_citations = None\<rparr>]) =
     [\<lparr>title = ''First'', uri = ''a''\<rparr>] \<and>
   visible_sources (new_chat_loop
     [\<lparr>c_text = None, c_sources = Some [\<lparr>title = ''First'', uri = ''a''\<rparr>], c_citations = None\<rparr>,
      \<lparr>c_text = None, c_sources = Some [\<lparr>title = ''Second'', uri = ''a''\<rparr>], c_citations = None\<rparr>]) =
     [\<lparr>title = ''Second'', uri = ''a''\<rparr>] \<and>
   visible_sources (new_chat_loop
     [\<lparr>c_text = None, c_sources = Some [\<lparr>title = ''First'', uri = ''a''\<rparr>], c_citations = None\<rparr>,
      \<lparr>c_text = None, c_sources = Some [\<lparr>title = ''Second'', uri = ''a''\<rparr>], c_citations = None\<rparr>]) \<noteq>
   visible_sources (new_chat_loop
     [\<lparr>c_text = None, c_sources = Some [\<lparr>title = ''First'', uri = ''a''\<rparr>], c_citations = None\<rparr>])"
  by (simp add: visible_sources_def map_values_def new_chat_loop_def loop_init_def
      new_chat_chunk_def merge_sources_def forEach_set_def)

text \<open>
  C2. In every state of the two maps that a loop can reach (\<open>merger_inv\<close>), applying a
  chunk a second time leaves the source map and the citation map as the first application
  left them, on the new-chat path and on the continuation path. (The text delta is not part
  of that state: \<^verbatim>\<open>fullText\<close> grows with every application.) A source whose \<^verbatim>\<open>uri\<close> is
  already among the visible sources does not change the number of sources, and a citation
  whose pair of \<^verbatim>\<open>startIndex\<close> and \<^verbatim>\<open>uri\<close> is that of a visible citation does not change
  the number of citations.
\<close>

theorem reapplied_chunk_is_noop:
  "merger_inv st \<Longrightarrow>
   sourcesMap (new_chat_chunk (new_chat_chunk st c) c) = sourcesMap (new_chat_chunk st c) \<and>
   citationsMap (new_chat_chunk (new_chat_chunk st c) c) = citationsMap (new_chat_chunk st c) \<and>
   sourcesMap (continuation_chunk (continuation_chunk st r) r) =
     sourcesMap (continuation_chunk st r) \<and>
   citationsMap (continuation_chunk (continuation_chunk st r) r) =
     citationsMap (continuation_chunk st r) \<and>
   (uri s \<in> set (map uri (visible_sources st)) \<longrightarrow>
      length (map_values (merge_sources [s] (sourcesMap st))) = length (visible_sources st)) \<and>
   (startIndex k = startIndex k' \<and> cit_uri k = cit_uri k' \<and> k' \<in> set (visible_citations st) \<longrightarrow>
      length (map_values (merge_citations [k] (citationsMap st))) = length (visible_citations st))"
  using new_chat_chunk_twice [of st c] continuation_chunk_twice [of st r]
    present_source_keeps_count [of st s] present_citation_keeps_count [of st k k']
  by blast

theorem reapplied_chunk_is_noop_witness:
  "merger_inv (new_chat_loop [\<lparr>c_text = Some ''x'', c_sources = Some [\<lparr>title = ''First'', uri = ''a''\<rparr>],
      c_citations = Some [\<lparr>startIndex = Some 12, endIndex = Some 20, cit_uri = ''a'',
        license = None\<rparr>]\<rparr>]) \<and>
   uri \<lparr>title = ''Again'', uri = ''a''\<rparr> \<in> set (map uri (visible_sources (new_chat_loop
     [\<lparr>c_text = Some ''x'', c_sources = Some [\<lparr>title = ''First'', uri = ''a''\<rparr>],
       c_citations = Some [\<lparr>startIndex = Some 12, endIndex = Some 20, cit_uri = ''a'',
        license = None\<rparr>]\<rparr>]))) \<and>
   length (map_values (merge_sources [\<lparr>title = ''Again'', uri = ''a''\<rparr>] (sourcesMap (new_chat_loop
     [\<lparr>c_text = Some ''x'', c_sources = Some [\<lparr>title = ''First'', uri = ''a''\<rparr>],
       c_citations = Some [\<lparr>startIndex = Some 12, endIndex = Some 20, cit_uri = ''a'',
        license = None\<rparr>]\<rparr>])))) =
   length (visible_sources (new_chat_loop
     [\<lparr>c_text = Some ''x'', c_sources = Some [\<lparr>title = ''First'', uri = ''a''\<rparr>],
       c_citations = Some [\<lparr>startIndex = Some 12, endIndex = Some 20, cit_uri = ''a'',
        license = None\<rparr>]\<rparr>])) \<and>
   \<lparr>startIndex = Some 12, endIndex = Some 20, cit_uri = ''a'', license = None\<rparr> \<in>
     set (visible_citations (new_chat_loop
     [\<lparr>c_text = Some ''x'', c_sources = Some [\<lparr>title = ''First'', uri = ''a''\<rparr>],
       c_citations = Some [\<lparr>startIndex = Some 12, endIndex = Some 20, cit_uri = ''a'',
        license = None\<rparr>]\<rparr>])) \<and>
   length (map_values (merge_citations
     [\<lparr>startIndex = Some 12, endIndex = Some 99, cit_uri = ''a'', license = Some ''mit''\<rparr>]
     (citationsMap (new_chat_loop
     [\<lparr>c_text = Some ''x'', c_sources = Some [\<lparr>title = ''First'', uri = ''a''\<rparr>],
       c_citations = Some [\<lparr>startIndex = Some 12, endIndex = Some 20, cit_uri = ''a'',
        license = None\<rparr>]\<rparr>])))) =
   length (visible_citations (new_chat_loop
     [\<lparr>c_text = Some ''x'', c_sources = Some [\<lparr>title = ''First'', uri = ''a''\<rparr>],
       c_citations = Some [\<lparr>startIndex = Some 12, endIndex = Some 20, cit_uri = ''a'',
        license = None\<rparr>]\<rparr>]))"
  (is "?inv \<and> ?present \<and> ?count \<and> ?cpresent \<and> ?ccount")
proof -
  let ?c = "\<lparr>c_text = Some ''x'', c_sources = Some [\<lparr>title = ''First'', uri = ''a''\<rparr>],
      c_citations = Some [\<lparr>startIndex = Some 12, endIndex = Some 20, cit_uri = ''a'',
        license = None\<rparr>]\<rparr>"
  let ?k' = "\<lparr>startIndex = Some 12, endIndex = Some 20, cit_uri = ''a'', license = None\<rparr>"
  let ?k = "\<lparr>startIndex = Some 12, endIndex = Some 99, cit_uri = ''a'', license = Some ''mit''\<rparr>"
  have inv: ?inv
    by (rule merger_inv_new_chat_loop)
  note T = reapplied_chunk_is_noop
    [OF inv, of ?c "\<lparr>r_text = Some ''y'', r_groundingChunks = None, r_citations = Some [?k]\<rparr>"
       "\<lparr>title = ''Again'', uri = ''a''\<rparr>" ?k ?k']
  have present: ?present
    by (simp add: visible_sources_def map_values_def new_chat_loop_def loop_init_def
        new_chat_chunk_def merge_sources_def forEach_set_def)
  have cpresent: ?cpresent
    by (simp add: visible_citations_def map_values_def new_chat_loop_def loop_init_def
        new_chat_chunk_def merge_citations_def forEach_set_def)
  have pair: "startIndex ?k = startIndex ?k' \<and> cit_uri ?k = cit_uri ?k'"
    by simp
  from T present have count: ?count
    by blast
  from T pair cpresent have ccount: ?ccount
    by blast
  from inv present count cpresent ccount show ?thesis
    by blast
qed

section \<open>The page: which state each handler leaves alone\<close>

lemma inserts_handleSendMessage: "inserts (handleSendMessage cl q s) = inserts s"
  by (simp add: handleSendMessage_def Let_def)

lemma inserts_on_chunk: "inserts (on_chunk tid r s) = inserts s"
  by (simp add: on_chunk_def finish_turn_def Let_def split: option.splits)

lemma inserts_on_stream_error: "inserts (on_stream_error env tid e s) = inserts s"
  by (simp add: on_stream_error_def finish_turn_def Let_def split: option.splits)

lemma inserts_on_insert_done: "inserts (on_insert_done tid d s) = inserts s"
  by (simp add: on_insert_done_def finish_turn_def split: option.splits)

lemma inserts_on_images_result: "inserts (on_images_result tid imgs s) = inserts s"
  by (simp add: on_images_result_def Let_def split: option.splits)

lemma inserts_on_related_result: "inserts (on_related_result tid qs s) = inserts s"
  by (simp add: on_related_result_def Let_def split: option.splits)

lemma inserts_user_actions:
  "inserts (handleStop s) = inserts s"
  "inserts (handleNewChat s) = inserts s"
  "inserts (handleModelChange m s) = inserts s"
  "inserts (handleRelatedQueryClick q s) = inserts s"
  by (simp_all add: handleStop_def handleNewChat_def resetChatState_def handleModelChange_def
      handleRelatedQueryClick_def Let_def)

lemma inserts_on_timer: "inserts (on_timer s) = inserts s"
  by (simp add: on_timer_def inserts_handleSendMessage split: list.splits)

lemma inserts_on_stream_end:
  "inserts (on_stream_end env tid s) =
     (case map_of (turns s) tid of
        None \<Rightarrow> inserts s
      | Some tr \<Rightarrow>
          if t_phase tr = Streaming \<and> \<not> isRequestCancelled s \<and> t_isNewChat tr
          then inserts s @ [(tid, history_row env tr)] else inserts s)"
  by (simp add: on_stream_end_def finish_turn_def Let_def split: option.splits)

lemma inserts_step_other:
  "(\<forall>tid. ev \<noteq> StreamEnd tid) \<Longrightarrow> inserts (step env s ev) = inserts s"
  by (cases ev)
    (simp_all add: inserts_handleSendMessage inserts_on_chunk inserts_on_stream_error
      inserts_on_insert_done inserts_on_images_result inserts_on_related_result
      inserts_user_actions inserts_on_timer)

text \<open>
  A call that passes the guard decides from its closure whether it begins a new chat: on
  the grounded provider when the closure holds no chat handle, on the other provider when
  the closure's message list is empty.
\<close>

lemma isNewChat_handleSendMessage:
  "\<not> cl_isLoading cl \<Longrightarrow> \<not> (js_trim q = [] \<and> cl_file cl = None) \<Longrightarrow>
   map_option t_isNewChat (map_of (turns (handleSendMessage cl q s)) (next_uuid s + 1)) =
   Some (if cl_activeModel cl = Mistral then cl_chatMessages cl = [] else cl_activeChat cl = None)"
  by (auto simp: handleSendMessage_def Let_def map_of_map_set)

lemma handleSendMessage_rejected:
  "cl_isLoading cl \<or> (js_trim q = [] \<and> cl_file cl = None) \<Longrightarrow> handleSendMessage cl q s = s"
  by (simp add: handleSendMessage_def)

text \<open>
  The guard of line 183 for a call from the search bar: with \<^verbatim>\<open>isLoading\<close> set, or with a
  blank query and no file, nothing of the page changes.
\<close>

lemma submission_rejected_while_loading:
  "isLoading s \<or> (js_trim q = [] \<and> attachedFile s = None) \<Longrightarrow> step env s (Submit q) = s"
  by (simp add: handleSendMessage_rejected closure_of_def)

text \<open>
  While the cancel flag is set, a chunk, the end or the failure of any stream changes
  neither the messages nor the rows sent to the history table.
\<close>

lemma frozen_while_cancelled:
  assumes "isRequestCancelled s"
  shows "chatMessages (on_chunk tid r s) = chatMessages s"
    and "chatMessages (on_stream_end env tid s) = chatMessages s"
    and "chatMessages (on_stream_error env tid e s) = chatMessages s"
    and "inserts (on_stream_end env tid s) = inserts s"
  using assms
  by (simp_all add: on_chunk_def on_stream_end_def on_stream_error_def finish_turn_def
      split: option.splits)

text \<open>Only a call of \<^verbatim>\<open>handleSendMessage\<close> that passes the guard clears the flag.\<close>

lemma cancel_flag_kept:
  "isRequestCancelled s \<Longrightarrow> (\<forall>q. ev \<noteq> Submit q) \<Longrightarrow> ev \<noteq> TimerFires \<Longrightarrow>
   isRequestCancelled (step env s ev)"
  by (cases ev)
     (simp_all add: handleStop_def handleNewChat_def resetChatState_def handleModelChange_def
        handleRelatedQueryClick_def on_chunk_def on_stream_end_def on_stream_error_def
        on_insert_done_def on_images_result_def on_related_result_def finish_turn_def Let_def
        split: option.splits)

text \<open>
  While the cancel flag is set, the result of an enrichment request changes nothing of the
  page but the record that the request is no longer pending; an image result for a
  message that is no longer in the list changes nothing either.
\<close>

lemma enrichment_dropped:
  assumes "isRequestCancelled s"
  shows "(on_images_result tid imgs s)\<lparr>turns := turns s\<rparr> = s"
    and "(on_related_result tid qs s)\<lparr>turns := turns s\<rparr> = s"
  using assms
  by (simp_all add: on_images_result_def on_related_result_def Let_def split: option.splits)

lemma update_message_absent:
  "mid \<notin> set (map m_id msgs) \<Longrightarrow> update_message mid f msgs = msgs"
  by (induction msgs) (simp_all add: update_message_def)

lemma images_for_absent_message:
  assumes "tid \<notin> set (map m_id (chatMessages s))"
  shows "(on_images_result tid imgs s)\<lparr>turns := turns s\<rparr> = s"
  using assms
  by (simp add: on_images_result_def Let_def update_message_absent split: option.splits)

section \<open>The page: what holds after every run\<close>

lemma fresh_handleSendMessage: "fresh_ids s \<Longrightarrow> fresh_ids (handleSendMessage cl q s)"
  unfolding fresh_ids_def
  by (auto simp: handleSendMessage_def Let_def map_of_map_set split: if_splits)

lemma fresh_step: "fresh_ids s \<Longrightarrow> fresh_ids (step env s ev)"
proof (cases ev)
  case (Submit q)
  assume "fresh_ids s"
  then show ?thesis by (simp add: Submit fresh_handleSendMessage)
next
  case TimerFires
  assume f: "fresh_ids s"
  show ?thesis
  proof (cases "timers s")
    case Nil
    with f show ?thesis by (simp add: TimerFires on_timer_def)
  next
    case (Cons scheduled rest)
    from f have "fresh_ids (s\<lparr>timers := rest\<rparr>)" by (simp add: fresh_ids_def)
    then show ?thesis by (simp add: TimerFires on_timer_def Cons fresh_handleSendMessage)
  qed
qed (auto simp: fresh_ids_def handleStop_def handleNewChat_def resetChatState_def
        handleModelChange_def handleRelatedQueryClick_def on_chunk_def on_stream_end_def
        on_stream_error_def on_insert_done_def on_images_result_def on_related_result_def
        finish_turn_def Let_def map_of_map_set split: option.splits if_splits)

lemma settled_handleSendMessage:
  assumes "fresh_ids s" and "settled s"
  shows "settled (handleSendMessage cl q s)"
proof (cases "cl_isLoading cl \<or> (js_trim q = [] \<and> cl_file cl = None)")
  case True
  with assms(2) show ?thesis by (simp add: handleSendMessage_def)
next
  case False
  have "\<exists>tr. map_of (turns (handleSendMessage cl q s)) tid = Some tr \<and> t_isNewChat tr \<and>
             t_phase tr \<noteq> Streaming"
    if "(tid, row) \<in> set (inserts s)" for tid row
  proof -
    from that assms(2) obtain tr where tr: "map_of (turns s) tid = Some tr" "t_isNewChat tr"
      "t_phase tr \<noteq> Streaming"
      unfolding settled_def by blast
    with assms(1) have "tid < next_uuid s"
      unfolding fresh_ids_def by blast
    then have "tid \<noteq> next_uuid s + 1" by simp
    with tr False show ?thesis
      by (auto simp: handleSendMessage_def Let_def map_of_map_set)
  qed
  moreover have "inserts (handleSendMessage cl q s) = inserts s"
    by (simp add: handleSendMessage_def Let_def)
  ultimately show ?thesis
    unfolding settled_def by simp
qed

lemma settled_step: "fresh_ids s \<Longrightarrow> settled s \<Longrightarrow> settled (step env s ev)"
proof (cases ev)
  case (Submit q)
  assume "fresh_ids s" "settled s"
  then show ?thesis by (simp add: Submit settled_handleSendMessage)
next
  case TimerFires
  assume f: "fresh_ids s" and t: "settled s"
  show ?thesis
  proof (cases "timers s")
    case Nil
    with t show ?thesis by (simp add: TimerFires on_timer_def)
  next
    case (Cons scheduled rest)
    from f have "fresh_ids (s\<lparr>timers := rest\<rparr>)" by (simp add: fresh_ids_def)
    moreover from t have "settled (s\<lparr>timers := rest\<rparr>)" by (simp add: settled_def)
    ultimately show ?thesis by (simp add: TimerFires on_timer_def Cons settled_handleSendMessage)
  qed
qed (auto simp: settled_def handleStop_def handleNewChat_def resetChatState_def
        handleModelChange_def handleRelatedQueryClick_def on_chunk_def on_stream_end_def
        on_stream_error_def on_insert_done_def on_images_result_def on_related_result_def
        finish_turn_def Let_def map_of_map_set split: option.splits if_splits)

lemma once_step:
  assumes "settled s" and "distinct (map fst (inserts s))"
  shows "distinct (map fst (inserts (step env s ev)))"
proof (cases "\<exists>tid. ev = StreamEnd tid")
  case False
  then show ?thesis using assms(2) by (simp add: inserts_step_other)
next
  case True
  then obtain tid where ev: "ev = StreamEnd tid" by blast
  show ?thesis
  proof (cases "map_of (turns s) tid")
    case None
    then show ?thesis using assms(2) by (simp add: ev inserts_on_stream_end)
  next
    case (Some tr)
    show ?thesis
    proof (cases "t_phase tr = Streaming \<and> \<not> isRequestCancelled s \<and> t_isNewChat tr")
      case False
      then show ?thesis using assms(2) Some by (auto simp: ev inserts_on_stream_end)
    next
      case True
      have "tid \<notin> fst ` set (inserts s)"
      proof
        assume "tid \<in> fst ` set (inserts s)"
        then obtain row where "(tid, row) \<in> set (inserts s)" by force
        with assms(1) obtain tr' where "map_of (turns s) tid = Some tr'" "t_phase tr' \<noteq> Streaming"
          unfolding settled_def by blast
        with Some True show False by simp
      qed
      then show ?thesis using assms(2) Some True by (simp add: ev inserts_on_stream_end)
    qed
  qed
qed

lemma run_snoc: "run env (evs @ [ev]) = step env (run env evs) ev"
  by (simp add: run_def)

lemma run_invariants:
  "fresh_ids (run env evs) \<and> settled (run env evs) \<and> distinct (map fst (inserts (run env evs)))"
proof (induction evs rule: rev_induct)
  case Nil
  then show ?case by (simp add: run_def fresh_ids_def settled_def initial_state_def)
next
  case (snoc ev evs)
  then show ?case by (simp add: run_snoc fresh_step settled_step once_step)
qed

text \<open>
  When one step of the page sends a history row: exactly at the end of the stream of a
  call that is still streaming and began a new chat, with the cancel flag clear at that
  moment, the row being the call's own; no other event, and no failure of a stream, sends
  one. After every run each row sent belongs to a call that began a new chat and whose
  stream is over, and no call has sent two rows. The flag says nothing of whether the user
  stopped the turn earlier, and a call decides from its closure, not from the page as it
  is, whether it begins a new chat.
\<close>

lemma row_sent_at_unflagged_end_of_new_chat:
  "(inserts (step env s ev) \<noteq> inserts s \<longrightarrow>
      (\<exists>tid tr. ev = StreamEnd tid \<and> map_of (turns s) tid = Some tr \<and>
         t_phase tr = Streaming \<and> \<not> isRequestCancelled s \<and> t_isNewChat tr \<and>
         inserts (step env s ev) = inserts s @ [(tid, history_row env tr)])) \<and>
   (map_of (turns s) tid = Some tr \<and> t_phase tr = Streaming \<and> \<not> isRequestCancelled s \<and>
    t_isNewChat tr \<longrightarrow>
      inserts (step env s (StreamEnd tid)) = inserts s @ [(tid, history_row env tr)]) \<and>
   (\<forall>tid' row. (tid', row) \<in> set (inserts (run env evs)) \<longrightarrow>
      (\<exists>tr'. map_of (turns (run env evs)) tid' = Some tr' \<and> t_isNewChat tr' \<and>
         t_phase tr' \<noteq> Streaming)) \<and>
   distinct (map fst (inserts (run env evs)))"
proof (intro conjI impI)
  assume changed: "inserts (step env s ev) \<noteq> inserts s"
  then obtain tid0 where ev: "ev = StreamEnd tid0"
    using inserts_step_other [of ev env s] by blast
  from changed obtain tr0 where tr0: "map_of (turns s) tid0 = Some tr0"
    by (cases "map_of (turns s) tid0") (simp_all add: ev inserts_on_stream_end)
  from changed have cond: "t_phase tr0 = Streaming \<and> \<not> isRequestCancelled s \<and> t_isNewChat tr0"
    by (rule contrapos_np) (simp add: ev tr0 inserts_on_stream_end)
  then have "inserts (step env s ev) = inserts s @ [(tid0, history_row env tr0)]"
    by (simp add: ev tr0 inserts_on_stream_end)
  with ev tr0 cond
  show "\<exists>tid tr. ev = StreamEnd tid \<and> map_of (turns s) tid = Some tr \<and>
         t_phase tr = Streaming \<and> \<not> isRequestCancelled s \<and> t_isNewChat tr \<and>
         inserts (step env s ev) = inserts s @ [(tid, history_row env tr)]"
    by blast
next
  assume "map_of (turns s) tid = Some tr \<and> t_phase tr = Streaming \<and> \<not> isRequestCancelled s \<and>
    t_isNewChat tr"
  then show "inserts (step env s (StreamEnd tid)) = inserts s @ [(tid, history_row env tr)]"
    by (simp add: inserts_on_stream_end)
next
  show "\<forall>tid' row. (tid', row) \<in> set (inserts (run env evs)) \<longrightarrow>
      (\<exists>tr'. map_of (turns (run env evs)) tid' = Some tr' \<and> t_isNewChat tr' \<and>
         t_phase tr' \<noteq> Streaming)"
    using run_invariants [of env evs] unfolding settled_def by blast
next
  show "distinct (map fst (inserts (run env evs)))"
    using run_invariants [of env evs] by blast
qed

section \<open>The page: failures of the primary stream\<close>

lemma quota_marker: "js_includes quota_message ''API quota exceeded''"
  by (simp add: quota_message_def)

lemma handleGeminiError_nonempty: "handleGeminiError e \<noteq> []"
  by (simp add: handleGeminiError_def generic_message_def quota_message_def
      split: Thrown.splits option.splits)

lemma rate_limited_message:
  "msg \<noteq> [] \<Longrightarrow> err_status d = Some ''RESOURCE_EXHAUSTED'' \<Longrightarrow>
   handleGeminiError (JsError msg (Some d)) = quota_message"
  by (simp add: handleGeminiError_def)

text \<open>
  For a stream opened through \<^verbatim>\<open>performSmartSearch\<close> or \<^verbatim>\<open>callMistral\<close> (a first turn
  of the grounded provider, or any turn of the other one) that fails while the flag is
  clear: the message shown is the designated quota message when the wrapped message
  carries the quota marker, as it does for \<^verbatim>\<open>RESOURCE_EXHAUSTED\<close>, and the wrapped message
  otherwise; the placeholder is removed from the list.
\<close>

lemma wrapped_stream_error:
  assumes "map_of (turns s) tid = Some tr" and "t_phase tr = Streaming"
    and "\<not> isRequestCancelled s" and "t_model tr = Mistral \<or> t_isNewChat tr"
  shows "error (on_stream_error env tid e s) =
           Some (if js_includes (handleGeminiError e) ''API quota exceeded''
                 then translate env ''search.error.quotaExceeded'' else handleGeminiError e)"
    and "chatMessages (on_stream_error env tid e s) =
           filter (\<lambda>msg. m_id msg \<noteq> tid) (chatMessages s)"
  using assms
  by (auto simp add: on_stream_error_def finish_turn_def caught_message_def Let_def
      handleGeminiError_nonempty)

lemma wrapped_rate_limited_error:
  assumes "map_of (turns s) tid = Some tr" and "t_phase tr = Streaming"
    and "\<not> isRequestCancelled s" and "t_model tr = Mistral \<or> t_isNewChat tr"
    and "msg \<noteq> []" and "err_status d = Some ''RESOURCE_EXHAUSTED''"
  shows "error (on_stream_error env tid (JsError msg (Some d)) s) =
           Some (translate env ''search.error.quotaExceeded'')"
  using assms by (simp add: wrapped_stream_error rate_limited_message quota_marker)

section \<open>The table extractor\<close>

lemma startsWith_iff: "startsWith s p \<longleftrightarrow> (\<exists>b. s = p @ b)"
  by (induction s p rule: startsWith.induct) auto

lemma js_includes_iff: "js_includes s p \<longleftrightarrow> (\<exists>a b. s = a @ p @ b)"
proof (induction s)
  case Nil
  then show ?case by auto
next
  case (Cons c cs)
  show ?case
  proof
    assume "js_includes (c # cs) p"
    then consider "startsWith (c # cs) p" | "js_includes cs p" by auto
    then show "\<exists>a b. c # cs = a @ p @ b"
    proof cases
      case 1
      then obtain b where "c # cs = p @ b" by (auto simp: startsWith_iff)
      then have "c # cs = [] @ p @ b" by simp
      then show ?thesis by blast
    next
      case 2
      with Cons.IH obtain a b where "cs = a @ p @ b" by blast
      then have "c # cs = (c # a) @ p @ b" by simp
      then show ?thesis by blast
    qed
  next
    assume "\<exists>a b. c # cs = a @ p @ b"
    then obtain a b where ab: "c # cs = a @ p @ b" by blast
    show "js_includes (c # cs) p"
    proof (cases a)
      case Nil
      with ab have "startsWith (c # cs) p" by (auto simp: startsWith_iff)
      then show ?thesis by simp
    next
      case (Cons x a')
      with ab have "cs = a' @ p @ b" by simp
      with Cons.IH have "js_includes cs p" by blast
      then show ?thesis by simp
    qed
  qed
qed

lemma no_fence_no_block:
  assumes "\<not> js_includes txt fence"
  shows "trailing_block txt = None"
proof (rule ccontr)
  assume "trailing_block txt \<noteq> None"
  then have "startsWith (dropWhile is_space (rev txt)) (rev fence)"
    by (auto simp: trailing_block_def Let_def split: if_splits)
  then obtain b where b: "dropWhile is_space (rev txt) = rev fence @ b"
    by (auto simp: startsWith_iff)
  have "rev txt = takeWhile is_space (rev txt) @ dropWhile is_space (rev txt)"
    by simp
  with b have "rev txt = takeWhile is_space (rev txt) @ rev fence @ b"
    by simp
  then have "rev (rev txt) = rev (takeWhile is_space (rev txt) @ rev fence @ b)"
    by (rule arg_cong)
  then have "txt = rev b @ fence @ rev (takeWhile is_space (rev txt))"
    by simp
  then have "js_includes txt fence"
    unfolding js_includes_iff by blast
  with assms show False by simp
qed

section \<open>The claims about the page\<close>

text \<open>
  C3, evaluated on the code at the input where it fails. The user stops the first turn
  while its stream is open, with \<^verbatim>\<open>a\<close> shown and the flag set, and submits a second
  question before the first stream delivers its next chunk. The submission clears the
  shared flag (line 184), so the next chunk of the stopped stream is appended to the
  stopped message, which now reads \<^verbatim>\<open>ab\<close>, and when that stream ends a history row is
  sent for the stopped turn.
\<close>

theorem stopped_stream_resumes_after_resubmit:
  "stream_open 1 (run plain_env first_turn_streaming) \<and>
   isRequestCancelled (run plain_env first_turn_stopped) \<and>
   content_of 1 (run plain_env first_turn_stopped) = Some ''a'' \<and>
   content_of 1 (run plain_env
     (first_turn_stopped @ [Submit ''q2'', StreamChunk 1 (text_chunk ''b'')])) = Some ''ab'' \<and>
   inserts (run plain_env first_turn_stopped) = [] \<and>
   map fst (inserts (run plain_env
     (first_turn_stopped @ [Submit ''q2'', StreamChunk 1 (text_chunk ''b''), StreamEnd 1]))) = [1]"
  by code_simp


text \<open>
  C5, evaluated on the code at the inputs where it fails. First, the input of C3: the user
  stops the first turn, so the turn is cancelled, and submits again before the stopped
  stream ends; the submission clears the shared flag, and at the end of the stopped stream
  a history row is sent for the cancelled turn. Second, the user clicks a related query:
  \<^verbatim>\<open>handleRelatedQueryClick\<close> starts a new chat, so that no chat handle exists and the
  message list is empty, and then calls the \<^verbatim>\<open>handleSendMessage\<close> of the render before the
  click, whose closure still holds the old chat handle; the call takes itself for a
  continuation, and the first turn of the new chat completes without a history row.
\<close>

theorem stopped_turn_persisted_related_click_not:
  "stream_open 1 (run plain_env first_turn_streaming) \<and>
   isRequestCancelled (run plain_env first_turn_stopped) \<and>
   inserts (run plain_env first_turn_stopped) = [] \<and>
   map (\<lambda>sent. (fst sent, row_query (snd sent), row_answer (snd sent)))
     (inserts (run plain_env (first_turn_stopped @ [Submit ''q2'', StreamEnd 1]))) =
     [(1, ''q1'', ''a'')] \<and>
   shown_related (run plain_env (first_turn_completed @ [RelatedResult 1 [''more'']])) =
     [''more''] \<and>
   activeChat (run plain_env
     (first_turn_completed @ [RelatedResult 1 [''more''], RelatedQueryClick ''more''])) = None \<and>
   chatMessages (run plain_env
     (first_turn_completed @ [RelatedResult 1 [''more''], RelatedQueryClick ''more''])) = [] \<and>
   map m_id (chatMessages (run plain_env
     (first_turn_completed @ [RelatedResult 1 [''more''], RelatedQueryClick ''more'',
        TimerFires]))) = [2, 3] \<and>
   map_option t_isNewChat (map_of (turns (run plain_env
     (first_turn_completed @ [RelatedResult 1 [''more''], RelatedQueryClick ''more'',
        TimerFires]))) 3) = Some False \<and>
   content_of 3 (run plain_env
     (first_turn_completed @ [RelatedResult 1 [''more''], RelatedQueryClick ''more'',
        TimerFires, StreamChunk 3 (text_chunk ''b''), StreamEnd 3])) = Some ''b'' \<and>
   \<not> stream_open 3 (run plain_env
     (first_turn_completed @ [RelatedResult 1 [''more''], RelatedQueryClick ''more'',
        TimerFires, StreamChunk 3 (text_chunk ''b''), StreamEnd 3])) \<and>
   \<not> isLoading (run plain_env
     (first_turn_completed @ [RelatedResult 1 [''more''], RelatedQueryClick ''more'',
        TimerFires, StreamChunk 3 (text_chunk ''b''), StreamEnd 3])) \<and>
   map fst (inserts (run plain_env
     (first_turn_completed @ [RelatedResult 1 [''more''], RelatedQueryClick ''more'',
        TimerFires, StreamChunk 3 (text_chunk ''b''), StreamEnd 3]))) = [1]"
  by code_simp

text \<open>
  C6, evaluated on the code at the input where it fails. The second turn of a chat on the
  grounded provider reads its stream from \<^verbatim>\<open>activeChat.sendMessageStream\<close> (lines
  213-214), whose exceptions do not pass through \<^verbatim>\<open>handleGeminiError\<close>. When that stream
  fails on an exhausted quota, the page shows the raw JSON message of the exception, not the
  designated quota message. The same exception on the first turn, which goes through
  \<^verbatim>\<open>performSmartSearch\<close>, shows the designated message.
\<close>

theorem continuation_quota_error_shows_raw_text:
  "stream_open 3 (run plain_env (first_turn_completed @ [Submit ''q2''])) \<and>
   map_option t_isNewChat
     (map_of (turns (run plain_env (first_turn_completed @ [Submit ''q2'']))) 3) = Some False \<and>
   error (run plain_env (first_turn_completed @ [Submit ''q2'', StreamError 3 quota_error])) =
     thrown_message quota_error \<and>
   error (run plain_env (first_turn_completed @ [Submit ''q2'', StreamError 3 quota_error])) \<noteq>
     Some (translate plain_env ''search.error.quotaExceeded'') \<and>
   error (run plain_env [Submit ''q1'', StreamError 1 quota_error]) =
     Some (translate plain_env ''search.error.quotaExceeded'')"
  by code_simp

text \<open>
  C7, evaluated on the code at the inputs where it fails. First, after \<^verbatim>\<open>stop()\<close> the
  stream of the first turn is still open, yet \<^verbatim>\<open>isLoading\<close> is clear and a second
  submission is accepted: two messages are appended, the submission clears the shared
  flag, and from then on two streams are open, neither of them cancelled, each writing its
  chunks into its own message. Second, when the stopped call then runs to its end, its
  \<^verbatim>\<open>finally\<close> block clears \<^verbatim>\<open>isLoading\<close> while the stream of the second turn, which
  nobody stopped, is open; a third submission is accepted beside it.
\<close>

theorem two_primary_streams_after_stop_and_resubmit:
  "stream_open 1 (run plain_env first_turn_stopped) \<and>
   length (chatMessages (run plain_env first_turn_stopped)) = 2 \<and>
   length (chatMessages (step plain_env (run plain_env first_turn_stopped) (Submit ''q2''))) = 4 \<and>
   stream_open 1 (run plain_env (first_turn_stopped @ [Submit ''q2''])) \<and>
   stream_open 3 (run plain_env (first_turn_stopped @ [Submit ''q2''])) \<and>
   \<not> isRequestCancelled (run plain_env (first_turn_stopped @ [Submit ''q2''])) \<and>
   content_of 1 (run plain_env (first_turn_stopped @
     [Submit ''q2'', StreamChunk 3 (text_chunk ''c''), StreamChunk 1 (text_chunk ''b'')])) =
     Some ''ab'' \<and>
   content_of 3 (run plain_env (first_turn_stopped @
     [Submit ''q2'', StreamChunk 3 (text_chunk ''c''), StreamChunk 1 (text_chunk ''b'')])) =
     Some ''c'' \<and>
   \<not> isLoading (run plain_env
     (first_turn_stopped @ [Submit ''q2'', StreamEnd 1, InsertDone 1 None])) \<and>
   stream_open 3 (run plain_env
     (first_turn_stopped @ [Submit ''q2'', StreamEnd 1, InsertDone 1 None])) \<and>
   length (chatMessages (run plain_env
     (first_turn_stopped @ [Submit ''q2'', StreamEnd 1, InsertDone 1 None, Submit ''q3'']))) = 6 \<and>
   stream_open 3 (run plain_env
     (first_turn_stopped @ [Submit ''q2'', StreamEnd 1, InsertDone 1 None, Submit ''q3''])) \<and>
   stream_open 5 (run plain_env
     (first_turn_stopped @ [Submit ''q2'', StreamEnd 1, InsertDone 1 None, Submit ''q3'']))"
  by code_simp

section \<open>The claim about the table extractor\<close>

text \<open>
  C8, against the extractor modelled from the specification. When the answer has a
  trailing fenced block whose body the parser reads, the result is the block's \<^verbatim>\<open>text\<close>
  member (the prose before the block when that member is empty) with the parsed table.
  When there is no trailing block, or its body is not read, and in particular when the
  answer holds no fence at all, the result is the answer unchanged with no table. The
  extractor is total: it returns a pair on every input.
\<close>

theorem extractAndParseMarkdownTable_cases:
  "(trailing_block answer = Some (prose, body) \<and> parse (js_trim body) = Some p \<longrightarrow>
      extractAndParseMarkdownTable parse answer =
        (if p_text p = [] then prose else p_text p, Some (p_table p))) \<and>
   (trailing_block answer = Some (prose, body) \<and> parse (js_trim body) = None \<longrightarrow>
      extractAndParseMarkdownTable parse answer = (answer, None)) \<and>
   (trailing_block answer = None \<longrightarrow> extractAndParseMarkdownTable parse answer = (answer, None)) \<and>
   (\<not> js_includes answer fence \<longrightarrow> extractAndParseMarkdownTable parse answer = (answer, None)) \<and>
   (\<exists>remainingText tbl. extractAndParseMarkdownTable parse answer = (remainingText, tbl))"
  using no_fence_no_block [of answer]
  by (auto simp: extractAndParseMarkdownTable_def split: option.splits)

theorem extractAndParseMarkdownTable_cases_witness:
  "trailing_block example_answer =
     Some (''Summary '', [CHR 0x0A] @ example_block @ [CHR 0x0A]) \<and>
   example_parse (js_trim ([CHR 0x0A] @ example_block @ [CHR 0x0A])) =
     Some \<lparr>p_text = ''S'', p_table = \<lparr>headers = [''H1''], rows = [[''v1'']]\<rparr>\<rparr> \<and>
   extractAndParseMarkdownTable example_parse example_answer =
     (''S'', Some \<lparr>headers = [''H1''], rows = [[''v1'']]\<rparr>) \<and>
   trailing_block ''Summary ```json {broken ```'' = Some (''Summary '', '' {broken '') \<and>
   example_parse (js_trim '' {broken '') = None \<and>
   extractAndParseMarkdownTable example_parse ''Summary ```json {broken ```'' =
     (''Summary ```json {broken ```'', None) \<and>
   trailing_block ''``` code ``` and prose'' = None \<and>
   extractAndParseMarkdownTable example_parse ''``` code ``` and prose'' =
     (''``` code ``` and prose'', None) \<and>
   \<not> js_includes ''plain answer'' fence \<and>
   extractAndParseMarkdownTable example_parse ''plain answer'' = (''plain answer'', None)"
  (is "?block \<and> ?read \<and> ?found \<and> ?block2 \<and> ?unread \<and> ?kept \<and> ?noblock \<and> ?kept2 \<and>
       ?nofence \<and> ?kept3")
proof -
  let ?p = "\<lparr>p_text = ''S'', p_table = \<lparr>headers = [''H1''], rows = [[''v1'']]\<rparr>\<rparr>"
  have block: ?block by code_simp
  have read: ?read by code_simp
  have block2: ?block2 by code_simp
  have unread: ?unread by code_simp
  have noblock: ?noblock by code_simp
  have nofence: ?nofence by code_simp
  note T1 = extractAndParseMarkdownTable_cases
    [where answer = example_answer and parse = example_parse and prose = "''Summary ''"
       and body = "[CHR 0x0A] @ example_block @ [CHR 0x0A]" and p = "?p"]
  note T2 = extractAndParseMarkdownTable_cases
    [where answer = "''Summary ```json {broken ```''" and parse = example_parse
       and prose = "''Summary ''" and body = "'' {broken ''"]
  note T3 = extractAndParseMarkdownTable_cases
    [where answer = "''``` code ``` and prose''" and parse = example_parse]
  note T4 = extractAndParseMarkdownTable_cases
    [where answer = "''plain answer''" and parse = example_parse]
  from T1 block read have "extractAndParseMarkdownTable example_parse example_answer =
      (if p_text ?p = [] then ''Summary '' else p_text ?p, Some (p_table ?p))"
    by blast
  then have found: ?found
    by simp
  from T2 block2 unread have kept: ?kept
    by blast
  from T3 noblock have kept2: ?kept2
    by blast
  from T4 nofence have kept3: ?kept3
    by blast
  from block read found block2 unread kept noblock kept2 nofence kept3 show ?thesis
    by blast
qed


end
